theory Spec2Isabelle
  imports Complex_Main "HOL-Library.Word" "HOL-Library.Multiset"
begin

section \<open>Bytes, text and the number parsers of Python\<close>

text \<open>
  A Python \<open>bytes\<close> value is a list of 8-bit characters and a \<open>str\<close> is the list of its
  code points. \<open>bytes.decode()\<close> is the strict UTF-8 decoder. \<open>int\<close> and \<open>float\<close> read a
  \<open>str\<close> after mapping every Unicode space to a blank and every Unicode decimal digit to
  its ASCII digit, and \<open>str.strip\<close> removes Unicode spaces; the ASCII part of this is
  written out below.

  Modelled as a parameter: the Unicode character tables of the Python interpreter, which
  are not part of this repository. A \<open>unicode_db\<close> gives, for the code points from 128 on,
  the decimal digit value (\<open>Py_UNICODE_TODECIMAL\<close>) and the space property
  (\<open>Py_UNICODE_ISSPACE\<close>). Every function that reads text takes it as its first argument,
  and every theorem holds for all tables.
\<close>

type_synonym bytes = "char list"

type_synonym str = "nat list"

record unicode_db =
  decimal_digit :: "nat \<Rightarrow> nat option"
  white_space :: "nat \<Rightarrow> bool"

datatype exn =
  TransportError | IndexError | ValueError | UnicodeDecodeError | StructError | ZeroDivisionError

definition byte_val :: "char \<Rightarrow> nat" where
  "byte_val c = of_char c"

definition py_slice :: "nat \<Rightarrow> nat \<Rightarrow> 'a list \<Rightarrow> 'a list" where
  \<comment> \<open>\<open>xs[i:j]\<close> for constant bounds \<open>0 \<le> i \<le> j\<close>: never raises, may come out short\<close>
  "py_slice i j xs = take (j - i) (drop i xs)"

definition is_cont :: "nat \<Rightarrow> bool" where
  \<comment> \<open>a continuation byte of UTF-8\<close>
  "is_cont b \<longleftrightarrow> 128 \<le> b \<and> b < 192"

fun utf8 :: "nat list \<Rightarrow> str option" where
  \<comment> \<open>the code points of a byte sequence; \<open>None\<close> when it is not well-formed UTF-8
      (a stray or missing continuation byte, an overlong form, a surrogate, a value
      above \<open>0x10FFFF\<close>)\<close>
  "utf8 [] = Some []"
| "utf8 (b # bs) =
     (if b < 128 then map_option ((#) b) (utf8 bs)
      else if 192 \<le> b \<and> b < 224 then
        (case bs of
           c1 # r \<Rightarrow>
             (let cp = (b - 192) * 64 + (c1 - 128) in
              if is_cont c1 \<and> 128 \<le> cp then map_option ((#) cp) (utf8 r) else None)
         | _ \<Rightarrow> None)
      else if 224 \<le> b \<and> b < 240 then
        (case bs of
           c1 # c2 # r \<Rightarrow>
             (let cp = (b - 224) * 4096 + (c1 - 128) * 64 + (c2 - 128) in
              if is_cont c1 \<and> is_cont c2 \<and> 2048 \<le> cp \<and> (cp < 55296 \<or> 57344 \<le> cp)
              then map_option ((#) cp) (utf8 r) else None)
         | _ \<Rightarrow> None)
      else if 240 \<le> b \<and> b < 248 then
        (case bs of
           c1 # c2 # c3 # r \<Rightarrow>
             (let cp = (b - 240) * 262144 + (c1 - 128) * 4096 + (c2 - 128) * 64 + (c3 - 128) in
              if is_cont c1 \<and> is_cont c2 \<and> is_cont c3 \<and> 65536 \<le> cp \<and> cp < 1114112
              then map_option ((#) cp) (utf8 r) else None)
         | _ \<Rightarrow> None)
      else None)"

definition decode :: "bytes \<Rightarrow> exn + str" where
  \<comment> \<open>\<open>b.decode()\<close>\<close>
  "decode bs =
     (case utf8 (map byte_val bs) of None \<Rightarrow> Inl UnicodeDecodeError | Some t \<Rightarrow> Inr t)"

definition to_ascii :: "unicode_db \<Rightarrow> str \<Rightarrow> string" where
  \<comment> \<open>what \<open>int\<close> and \<open>float\<close> parse in place of a \<open>str\<close>: ASCII as it is, a Unicode space
      as a blank, a Unicode digit as its ASCII digit, anything else as a character that
      no number contains\<close>
  "to_ascii db t =
     map (\<lambda>cp. if cp < 128 then char_of cp
               else if white_space db cp then CHR '' ''
               else (case decimal_digit db cp of
                       Some d \<Rightarrow> if d < 10 then char_of (48 + d) else CHR ''?''
                     | None \<Rightarrow> CHR ''?'')) t"

definition str_space :: "unicode_db \<Rightarrow> nat \<Rightarrow> bool" where
  \<comment> \<open>\<open>str.isspace\<close> of one code point: in ASCII the blank, tab, LF, VT, FF, CR and the
      separators FS, GS, RS, US\<close>
  "str_space db cp \<longleftrightarrow>
     (if cp < 128 then (9 \<le> cp \<and> cp \<le> 13) \<or> (28 \<le> cp \<and> cp \<le> 32) else white_space db cp)"

definition is_digit :: "char \<Rightarrow> bool" where
  "is_digit c \<longleftrightarrow> 48 \<le> byte_val c \<and> byte_val c \<le> 57"

definition digit_val :: "char \<Rightarrow> nat" where
  "digit_val c = byte_val c - 48"

definition is_space :: "char \<Rightarrow> bool" where
  \<comment> \<open>\<open>Py_ISSPACE\<close>: tab, LF, VT, FF, CR and blank\<close>
  "is_space c \<longleftrightarrow> (9 \<le> byte_val c \<and> byte_val c \<le> 13) \<or> byte_val c = 32"

definition strip_by :: "('a \<Rightarrow> bool) \<Rightarrow> 'a list \<Rightarrow> 'a list" where
  "strip_by p s = rev (dropWhile p (rev (dropWhile p s)))"

fun underscores_ok :: "char \<Rightarrow> string \<Rightarrow> bool" where
  \<comment> \<open>an underscore is allowed only between two digits; the first argument is the previous character\<close>
  "underscores_ok prev [] = (prev \<noteq> CHR ''_'')"
| "underscores_ok prev (c # cs) =
     ((if c = CHR ''_'' then is_digit prev else if prev = CHR ''_'' then is_digit c else True)
      \<and> underscores_ok c cs)"

definition split_sign :: "string \<Rightarrow> bool \<times> string" where
  \<comment> \<open>an optional sign; the flag says whether it was a minus\<close>
  "split_sign s =
     (case s of
        [] \<Rightarrow> (False, [])
      | c # cs \<Rightarrow> if c = CHR ''-'' then (True, cs)
                  else if c = CHR ''+'' then (False, cs) else (False, s))"

definition digits_val :: "string \<Rightarrow> nat" where
  "digits_val ds = foldl (\<lambda>a c. 10 * a + digit_val c) 0 ds"

definition py_int :: "string \<Rightarrow> exn + int" where
  \<comment> \<open>\<open>int\<close> in base 10 on ASCII characters and on \<open>bytes\<close>: blanks around, a sign, digits
      with single underscores between them\<close>
  "py_int s =
     (let t = strip_by is_space s in
      if \<not> underscores_ok (CHR 0x00) t then Inl ValueError
      else
        let (neg, ds) = split_sign (filter (\<lambda>c. c \<noteq> CHR ''_'') t) in
        if ds = [] \<or> \<not> list_all is_digit ds then Inl ValueError
        else Inr (if neg then - int (digits_val ds) else int (digits_val ds)))"

definition int_of_bytes :: "unicode_db \<Rightarrow> bytes \<Rightarrow> exn + int" where
  \<comment> \<open>\<open>int(b.decode())\<close>\<close>
  "int_of_bytes db bs = (case decode bs of Inl e \<Rightarrow> Inl e | Inr t \<Rightarrow> py_int (to_ascii db t))"

section \<open>The packet reader\<close>

text \<open>
  The variables that \<open>readPacket\<close> shares with \<open>get_waveform\<close> through \<open>nonlocal\<close>,
  together with the calls made to \<open>progress_callback\<close>, in order.
\<close>

record rstate =
  samples_data :: bytes
  samples_total :: int
  samples_got :: int
  meta :: bytes
  progress :: "(int \<times> int) list"

definition init_state :: rstate where
  "init_state = \<lparr>samples_data = [], samples_total = - 1, samples_got = 0, meta = [], progress = []\<rparr>"

definition set_item :: "bytes \<Rightarrow> int \<Rightarrow> char \<Rightarrow> exn + bytes" where
  \<comment> \<open>\<open>buf[i] = b\<close> on a bytearray: a negative index counts from the end\<close>
  "set_item buf i b =
     (let n = int (length buf); j = (if i < 0 then i + n else i) in
      if 0 \<le> j \<and> j < n then Inr (buf[nat j := b]) else Inl IndexError)"

fun write_bytes :: "bytes \<Rightarrow> int \<Rightarrow> bytes \<Rightarrow> exn + bytes" where
  \<comment> \<open>\<open>for i in range(0, cur_len): samples_data[cur_pos + i] = inp[end_of_meta + i]\<close>\<close>
  "write_bytes buf pos [] = Inr buf"
| "write_bytes buf pos (b # bs) =
     (case set_item buf pos b of
        Inl e \<Rightarrow> Inl e
      | Inr buf' \<Rightarrow> write_bytes buf' (pos + 1) bs)"

definition payload :: "bytes \<Rightarrow> bytes" where
  \<comment> \<open>the bytes \<open>inp[end_of_meta + i]\<close> for \<open>i\<close> in \<open>range(0, len(inp) - end_of_meta)\<close>\<close>
  "payload inp = drop 128 inp"

definition store_packet :: "bytes \<Rightarrow> int \<Rightarrow> rstate \<Rightarrow> exn + bool \<times> rstate" where
  \<comment> \<open>lines 94 to 103: copy the payload, count it, report progress, test for completion\<close>
  "store_packet inp cur_pos st =
     (let cur_len = int (length inp) - 128 in
      case write_bytes (samples_data st) cur_pos (payload inp) of
        Inl e \<Rightarrow> Inl e
      | Inr buf \<Rightarrow>
          let got = samples_got st + cur_len;
              st' = st\<lparr>samples_data := buf, samples_got := got,
                       progress := progress st @ [(got, samples_total st)]\<rparr>
          in Inr (got = samples_total st, st'))"

text \<open>The three decimal fields of the header, as \<open>readPacket\<close> reads them.\<close>

definition declared_len :: "unicode_db \<Rightarrow> bytes \<Rightarrow> exn + int" where
  \<comment> \<open>\<open>int(inp[2:11].decode())\<close>\<close>
  "declared_len db inp = int_of_bytes db (py_slice 2 11 inp)"

definition declared_total :: "unicode_db \<Rightarrow> bytes \<Rightarrow> exn + int" where
  \<comment> \<open>\<open>int(inp[11:20].decode())\<close>\<close>
  "declared_total db inp = int_of_bytes db (py_slice 11 20 inp)"

definition declared_pos :: "unicode_db \<Rightarrow> bytes \<Rightarrow> exn + int" where
  \<comment> \<open>\<open>int(inp[20:29].decode())\<close>\<close>
  "declared_pos db inp = int_of_bytes db (py_slice 20 29 inp)"

definition readPacket :: "unicode_db \<Rightarrow> bytes option \<Rightarrow> rstate \<Rightarrow> exn + bool \<times> rstate" where
  \<comment> \<open>one query and its response; \<open>None\<close> is a transport call that raises\<close>
  "readPacket db resp st =
     (case resp of
        None \<Rightarrow> Inl TransportError
      | Some inp \<Rightarrow>
          if inp = [] then Inl IndexError
          else if inp ! 0 \<noteq> CHR ''#'' then Inr (False, st)
          else if length inp < 2 then Inl IndexError
          else if inp ! 1 \<noteq> CHR ''9'' then Inr (False, st)
          else
            (case declared_len db inp of
               Inl e \<Rightarrow> Inl e
             | Inr this_len \<Rightarrow>
                 if this_len = 0 then Inr (False, st)
                 else
                   (case declared_total db inp of
                      Inl e \<Rightarrow> Inl e
                    | Inr total_smpls \<Rightarrow>
                        (case declared_pos db inp of
                           Inl e \<Rightarrow> Inl e
                         | Inr cur_pos \<Rightarrow>
                             if samples_total st = - 1 then
                               if total_smpls < 0 then Inl ValueError
                               else
                                 store_packet inp cur_pos
                                   (st\<lparr>samples_total := total_smpls,
                                       samples_data := replicate (nat total_smpls) (CHR 0x00),
                                       meta := py_slice 29 128 inp\<rparr>)
                             else if samples_total st \<noteq> total_smpls then Inr (False, st)
                             else store_packet inp cur_pos st))))"

text \<open>
  \<open>while not readPacket(): pass\<close>. The transport is the sequence of its successive
  responses, and the second argument counts the queries sent so far. The loop has no bound
  of its own, so it is a partial function: \<open>None\<close> is a loop that never returns.
\<close>

type_synonym frames = "nat \<Rightarrow> bytes option"

partial_function (option) read_all :: "unicode_db \<Rightarrow> frames \<Rightarrow> nat \<Rightarrow> rstate \<Rightarrow> (exn + rstate) option" where
  "read_all db tr n st =
     (case readPacket db (tr n) st of
        Inl e \<Rightarrow> Some (Inl e)
      | Inr (done, st') \<Rightarrow> if done then Some (Inr st') else read_all db tr (Suc n) st')"

declare read_all.simps [code]

definition script :: "bytes list \<Rightarrow> frames" where
  \<comment> \<open>an instrument that answers with the given responses and then stays silent: the read times out\<close>
  "script ps n = (if n < length ps then Some (ps ! n) else None)"

section \<open>Floating point numbers\<close>

text \<open>
  A Python \<open>float\<close> is idealised: a real number, or one of the three special values.
  Arithmetic is exact. Reading a decimal literal keeps the range of a double: a literal
  that rounds beyond the largest double is an infinity, and one that rounds to zero is
  zero; what lies between is taken as it is written, without rounding.
\<close>

datatype pyfloat = Fin real | PInf | NInf | NaN

definition to_lower :: "char \<Rightarrow> char" where
  "to_lower c = (if 65 \<le> byte_val c \<and> byte_val c \<le> 90 then char_of (byte_val c + 32) else c)"

definition special :: "bool \<Rightarrow> string \<Rightarrow> pyfloat option" where
  \<comment> \<open>\<open>inf\<close>, \<open>infinity\<close> and \<open>nan\<close> in any case, after the sign\<close>
  "special neg s =
     (let w = map to_lower s in
      if w = ''inf'' \<or> w = ''infinity'' then Some (if neg then NInf else PInf)
      else if w = ''nan'' then Some NaN
      else None)"

definition pow10 :: "int \<Rightarrow> real" where
  "pow10 k = (if 0 \<le> k then 10 ^ nat k else 1 / 10 ^ nat (- k))"

definition decimal :: "string \<Rightarrow> real option" where
  \<comment> \<open>an unsigned decimal literal: digits, an optional point and digits, an optional exponent\<close>
  "decimal s =
     (let ip = takeWhile is_digit s;
          r1 = dropWhile is_digit s;
          (fp, r2) =
            (case r1 of
               [] \<Rightarrow> ([], [])
             | c # cs \<Rightarrow> if c = CHR ''.'' then (takeWhile is_digit cs, dropWhile is_digit cs)
                         else ([], r1))
      in
      if ip @ fp = [] then None
      else
        (case r2 of
           [] \<Rightarrow> Some (real (digits_val (ip @ fp)) * pow10 (- int (length fp)))
         | c # cs \<Rightarrow>
             if c = CHR ''e'' \<or> c = CHR ''E'' then
               (let (neg, ds) = split_sign cs in
                if ds = [] \<or> \<not> list_all is_digit ds then None
                else Some (real (digits_val (ip @ fp))
                           * pow10 ((if neg then - int (digits_val ds) else int (digits_val ds))
                                    - int (length fp))))
             else None))"

definition to_double :: "real \<Rightarrow> pyfloat" where
  \<comment> \<open>the double nearest to a real: an infinity from the midpoint between the largest
      double and the power 1024 of 2 on, zero up to half the least positive double, and otherwise
      (rounding left out) the real itself\<close>
  "to_double x =
     (if 2 ^ 1024 - 2 ^ 970 \<le> \<bar>x\<bar> then (if x < 0 then NInf else PInf)
      else if \<bar>x\<bar> \<le> 1 / 2 ^ 1075 then Fin 0
      else Fin x)"

definition py_float :: "string \<Rightarrow> exn + pyfloat" where
  \<comment> \<open>\<open>float\<close> on ASCII characters and on \<open>bytes\<close>: blanks around, a sign, a special value
      or a decimal literal\<close>
  "py_float s =
     (let t = strip_by is_space s in
      if \<not> underscores_ok (CHR 0x00) t then Inl ValueError
      else
        let (neg, r) = split_sign (filter (\<lambda>c. c \<noteq> CHR ''_'') t) in
        (case special neg r of
           Some v \<Rightarrow> Inr v
         | None \<Rightarrow>
             (case decimal r of
                None \<Rightarrow> Inl ValueError
              | Some x \<Rightarrow> Inr (to_double (if neg then - x else x)))))"

fun fmul :: "pyfloat \<Rightarrow> pyfloat \<Rightarrow> pyfloat" where
  "fmul (Fin x) (Fin y) = Fin (x * y)"
| "fmul NaN _ = NaN"
| "fmul _ NaN = NaN"
| "fmul (Fin x) PInf = (if x = 0 then NaN else if 0 < x then PInf else NInf)"
| "fmul (Fin x) NInf = (if x = 0 then NaN else if 0 < x then NInf else PInf)"
| "fmul PInf (Fin y) = (if y = 0 then NaN else if 0 < y then PInf else NInf)"
| "fmul NInf (Fin y) = (if y = 0 then NaN else if 0 < y then NInf else PInf)"
| "fmul PInf PInf = PInf"
| "fmul PInf NInf = NInf"
| "fmul NInf PInf = NInf"
| "fmul NInf NInf = PInf"

fun fsub :: "pyfloat \<Rightarrow> pyfloat \<Rightarrow> pyfloat" where
  "fsub (Fin x) (Fin y) = Fin (x - y)"
| "fsub NaN _ = NaN"
| "fsub _ NaN = NaN"
| "fsub (Fin x) PInf = NInf"
| "fsub (Fin x) NInf = PInf"
| "fsub PInf (Fin y) = PInf"
| "fsub NInf (Fin y) = NInf"
| "fsub PInf PInf = NaN"
| "fsub PInf NInf = PInf"
| "fsub NInf PInf = NInf"
| "fsub NInf NInf = NaN"

fun int_div_float :: "int \<Rightarrow> pyfloat \<Rightarrow> exn + pyfloat" where
  \<comment> \<open>\<open>i / x\<close> for an integer \<open>i\<close> and a float \<open>x\<close>\<close>
  "int_div_float i (Fin x) = (if x = 0 then Inl ZeroDivisionError else Inr (Fin (real_of_int i / x)))"
| "int_div_float i PInf = Inr (Fin 0)"
| "int_div_float i NInf = Inr (Fin 0)"
| "int_div_float i NaN = Inr NaN"

section \<open>Metadata\<close>

text \<open>
  \<open>struct.unpack('cc 16x 7s7s7s7s cccc 9s 6s 9x 9s 6s 10x', meta)\<close>: the format has
  99 bytes and no padding, and any other length raises \<open>struct.error\<close>.
\<close>

record unpacked =
  running :: bytes
  trigger :: bytes
  v1 :: bytes
  v2 :: bytes
  v3 :: bytes
  v4 :: bytes
  c1e :: bytes
  c2e :: bytes
  c3e :: bytes
  c4e :: bytes
  sampling_rate :: bytes
  sampling_multiple :: bytes
  trigger_time :: bytes
  acq_start :: bytes

definition unpack_meta :: "bytes \<Rightarrow> exn + unpacked" where
  "unpack_meta m =
     (if length m \<noteq> 99 then Inl StructError
      else Inr \<lparr>running = py_slice 0 1 m, trigger = py_slice 1 2 m,
                v1 = py_slice 18 25 m, v2 = py_slice 25 32 m,
                v3 = py_slice 32 39 m, v4 = py_slice 39 46 m,
                c1e = py_slice 46 47 m, c2e = py_slice 47 48 m,
                c3e = py_slice 48 49 m, c4e = py_slice 49 50 m,
                sampling_rate = py_slice 50 59 m, sampling_multiple = py_slice 59 65 m,
                trigger_time = py_slice 74 83 m, acq_start = py_slice 83 89 m\<rparr>)"

fun sum_ints :: "(exn + int) list \<Rightarrow> exn + int" where
  \<comment> \<open>\<open>sum([...])\<close> of values computed left to right: the first one that raises ends it\<close>
  "sum_ints [] = Inr 0"
| "sum_ints (Inl e # _) = Inl e"
| "sum_ints (Inr x # xs) = (case sum_ints xs of Inl e \<Rightarrow> Inl e | Inr s \<Rightarrow> Inr (x + s))"

definition float_of_text :: "unicode_db \<Rightarrow> bytes \<Rightarrow> exn + pyfloat" where
  \<comment> \<open>\<open>float(f.decode())\<close>\<close>
  "float_of_text db f =
     (case decode f of Inl e \<Rightarrow> Inl e | Inr t \<Rightarrow> py_float (to_ascii db t))"

definition float_of_stripped :: "unicode_db \<Rightarrow> bytes \<Rightarrow> exn + pyfloat" where
  \<comment> \<open>\<open>float(f.decode().strip())\<close>\<close>
  "float_of_stripped db f =
     (case decode f of
        Inl e \<Rightarrow> Inl e
      | Inr t \<Rightarrow> py_float (to_ascii db (strip_by (str_space db) t)))"

definition decode_sr :: "unicode_db \<Rightarrow> bytes \<Rightarrow> exn + pyfloat" where
  \<comment> \<open>lines 120 to 123: the text of the field, and on any failure the bytes themselves\<close>
  "decode_sr db f = (case float_of_text db f of Inr x \<Rightarrow> Inr x | Inl _ \<Rightarrow> py_float f)"

definition decode_tt :: "unicode_db \<Rightarrow> bytes \<Rightarrow> pyfloat" where
  \<comment> \<open>lines 126 to 130: the stripped text of the field, and on any failure 0.0\<close>
  "decode_tt db f = (case float_of_stripped db f of Inr x \<Rightarrow> x | Inl _ \<Rightarrow> Fin 0)"

record meta_info =
  channel_count :: int
  sr :: pyfloat
  tt :: pyfloat

definition decode_meta :: "unicode_db \<Rightarrow> bytes \<Rightarrow> exn + meta_info" where
  \<comment> \<open>lines 110 to 130\<close>
  "decode_meta db m =
     (case unpack_meta m of
        Inl e \<Rightarrow> Inl e
      | Inr u \<Rightarrow>
          (case sum_ints [py_int (c1e u), py_int (c2e u), py_int (c3e u), py_int (c4e u)] of
             Inl e \<Rightarrow> Inl e
           | Inr n \<Rightarrow>
               (case decode_sr db (sampling_rate u) of
                  Inl e \<Rightarrow> Inl e
                | Inr x \<Rightarrow> Inr \<lparr>channel_count = n, sr = x, tt = decode_tt db (trigger_time u)\<rparr>)))"

section \<open>Channel extraction\<close>

definition py_range :: "int \<Rightarrow> int \<Rightarrow> int \<Rightarrow> exn + int list" where
  \<comment> \<open>\<open>range(start, stop, step)\<close>, as the list of its values\<close>
  "py_range start stop step =
     (if step = 0 then Inl ValueError
      else if 0 < step then
        Inr (map (\<lambda>j. start + int j * step) [0..<nat ((stop - start + step - 1) div step)])
      else
        Inr (map (\<lambda>j. start + int j * step) [0..<nat ((start - stop - step - 1) div (- step))]))"

definition slice_int :: "int \<Rightarrow> int \<Rightarrow> 'a list \<Rightarrow> 'a list" where
  \<comment> \<open>\<open>xs[i:j]\<close> for any integers: a negative bound counts from the end, and bounds are clipped\<close>
  "slice_int i j xs =
     (let n = int (length xs);
          a = (if i < 0 then max (i + n) 0 else min i n);
          b = (if j < 0 then max (j + n) 0 else min j n)
      in take (nat (b - a)) (drop (nat a) xs))"

definition signed_byte :: "char \<Rightarrow> int" where
  \<comment> \<open>format \<open>b\<close>: the byte as a signed 8-bit integer\<close>
  "signed_byte c = sint (of_nat (byte_val c) :: 8 word)"

definition unpack_block :: "bytes \<Rightarrow> exn + int list" where
  \<comment> \<open>\<open>struct.unpack('2000b', blk)\<close>\<close>
  "unpack_block blk = (if length blk \<noteq> 2000 then Inl StructError else Inr (map signed_byte blk))"

fun extend_blocks :: "bytes \<Rightarrow> int list \<Rightarrow> exn + int list" where
  \<comment> \<open>the body of the loop of line 136, over the values of the range\<close>
  "extend_blocks buf [] = Inr []"
| "extend_blocks buf (i # starts) =
     (case unpack_block (slice_int i (i + 2000) buf) of
        Inl e \<Rightarrow> Inl e
      | Inr blk \<Rightarrow>
          (case extend_blocks buf starts of
             Inl e \<Rightarrow> Inl e
           | Inr rest \<Rightarrow> Inr (blk @ rest)))"

definition extract_channel :: "bytes \<Rightarrow> int \<Rightarrow> int \<Rightarrow> exn + int list" where
  \<comment> \<open>lines 133 to 137, for channel \<open>ch\<close> of \<open>n\<close> enabled channels\<close>
  "extract_channel buf ch n =
     (case py_range ((ch - 1) * 2000) (int (length buf)) (2000 * n) of
        Inl e \<Rightarrow> Inl e
      | Inr starts \<Rightarrow> extend_blocks buf starts)"

section \<open>Calibration\<close>

definition voltaje :: "int list \<Rightarrow> pyfloat \<Rightarrow> pyfloat \<Rightarrow> pyfloat list" where
  \<comment> \<open>\<open>[v / grid_y * scale - offset for v in samples]\<close> with \<open>grid_y = 25\<close>\<close>
  "voltaje samples scale offset =
     map (\<lambda>v. fsub (fmul (Fin (real_of_int v / 25)) scale) offset) samples"

fun collect :: "(exn + 'a) list \<Rightarrow> exn + 'a list" where
  \<comment> \<open>a list comprehension whose elements may raise\<close>
  "collect [] = Inr []"
| "collect (Inl e # _) = Inl e"
| "collect (Inr x # xs) = (case collect xs of Inl e \<Rightarrow> Inl e | Inr ys \<Rightarrow> Inr (x # ys))"

definition tiempo :: "nat \<Rightarrow> pyfloat \<Rightarrow> pyfloat \<Rightarrow> exn + pyfloat list" where
  \<comment> \<open>\<open>[i / sr - tt for i in range(len(samples))]\<close>\<close>
  "tiempo n r t =
     collect (map (\<lambda>i. case int_div_float (int i) r of Inl e \<Rightarrow> Inl e | Inr q \<Rightarrow> Inr (fsub q t))
                  [0..<n])"

section \<open>The whole fetch\<close>

text \<open>
  The instrument as \<open>get_waveform\<close> sees it: the responses to the data query, and the
  replies to the two read-back queries of a channel, which \<open>query\<close> returns as a \<open>str\<close>
  (\<open>None\<close>: the call raises).
\<close>

record transport =
  responses :: frames
  offset_reply :: "int \<Rightarrow> str option"
  scale_reply :: "int \<Rightarrow> str option"

definition query_float :: "unicode_db \<Rightarrow> str option \<Rightarrow> exn + pyfloat" where
  \<comment> \<open>\<open>float(self._osci.query(...))\<close>\<close>
  "query_float db r =
     (case r of None \<Rightarrow> Inl TransportError | Some t \<Rightarrow> py_float (to_ascii db t))"

definition calibrate ::
  "int list \<Rightarrow> pyfloat \<Rightarrow> pyfloat \<Rightarrow> pyfloat \<Rightarrow> pyfloat \<Rightarrow> exn + pyfloat list \<times> pyfloat list" where
  \<comment> \<open>lines 144 to 150: the pair \<open>(tiempo, voltaje)\<close>\<close>
  "calibrate samples scale offset r t =
     (let v = voltaje samples scale offset in
      case tiempo (length samples) r t of
        Inl e \<Rightarrow> Inl e
      | Inr tm \<Rightarrow> Inr (tm, v))"

definition after_read :: "unicode_db \<Rightarrow> transport \<Rightarrow> int \<Rightarrow> rstate \<Rightarrow> exn + pyfloat list \<times> pyfloat list" where
  \<comment> \<open>lines 110 to 150, once the loop has returned\<close>
  "after_read db t ch st =
     (case decode_meta db (meta st) of
        Inl e \<Rightarrow> Inl e
      | Inr mi \<Rightarrow>
          (case extract_channel (samples_data st) ch (channel_count mi) of
             Inl e \<Rightarrow> Inl e
           | Inr samples \<Rightarrow>
               (case query_float db (offset_reply t ch) of
                  Inl e \<Rightarrow> Inl e
                | Inr offset \<Rightarrow>
                    (case query_float db (scale_reply t ch) of
                       Inl e \<Rightarrow> Inl e
                     | Inr scale \<Rightarrow> calibrate samples scale offset (sr mi) (tt mi)))))"

definition fetch :: "unicode_db \<Rightarrow> transport \<Rightarrow> int \<Rightarrow> (exn + pyfloat list \<times> pyfloat list) option" where
  \<comment> \<open>the body of the \<open>try\<close>: \<open>None\<close> when the loop never returns\<close>
  "fetch db t ch =
     (case read_all db (responses t) 0 init_state of
        None \<Rightarrow> None
      | Some (Inl e) \<Rightarrow> Some (Inl e)
      | Some (Inr st) \<Rightarrow> Some (after_read db t ch st))"

datatype waveform_result = None_None | Arrays "pyfloat list" "pyfloat list"

definition get_waveform :: "unicode_db \<Rightarrow> transport \<Rightarrow> int \<Rightarrow> waveform_result option" where
  \<comment> \<open>\<open>except Exception\<close>: whatever was raised, the caller gets \<open>(None, None)\<close>\<close>
  "get_waveform db t ch =
     (case fetch db t ch of
        None \<Rightarrow> None
      | Some (Inl e) \<Rightarrow> Some None_None
      | Some (Inr (tm, v)) \<Rightarrow> Some (Arrays tm v))"

section \<open>Vocabulary for statements about transfers\<close>

definition ascii :: "bytes \<Rightarrow> bool" where
  \<comment> \<open>every byte is below 128\<close>
  "ascii bs \<longleftrightarrow> list_all (\<lambda>c. byte_val c < 128) bs"

definition has_marker :: "bytes \<Rightarrow> bool" where
  \<comment> \<open>the response begins with the two bytes that line 73 compares against\<close>
  "has_marker inp \<longleftrightarrow> 2 \<le> length inp \<and> inp ! 0 = CHR ''#'' \<and> inp ! 1 = CHR ''9''"

definition write_offset :: "unicode_db \<Rightarrow> bytes \<Rightarrow> int" where
  \<comment> \<open>\<open>cur_pos\<close> of a response whose third field parses\<close>
  "write_offset db inp = (case declared_pos db inp of Inr p \<Rightarrow> p | Inl _ \<Rightarrow> 0)"

definition wf_packet :: "unicode_db \<Rightarrow> int \<Rightarrow> bytes \<Rightarrow> bool" where
  \<comment> \<open>a framed response of a transfer of \<open>T\<close> samples: it declares the length of the payload
      it carries, which is not empty, the total \<open>T\<close>, and a write offset\<close>
  "wf_packet db T inp \<longleftrightarrow>
     has_marker inp \<and> declared_len db inp = Inr (int (length (payload inp))) \<and> payload inp \<noteq> []
     \<and> declared_total db inp = Inr T \<and> declared_pos db inp = Inr (write_offset db inp)"

fun tiles :: "unicode_db \<Rightarrow> int \<Rightarrow> bytes list \<Rightarrow> int \<Rightarrow> bool" where
  \<comment> \<open>the payloads of the packets, in this order, lie end to end from \<open>lo\<close> to \<open>hi\<close>\<close>
  "tiles db lo [] hi = (lo = hi)"
| "tiles db lo (p # ps) hi =
     (write_offset db p = lo \<and> tiles db (lo + int (length (payload p))) ps hi)"

definition received :: "bytes list \<Rightarrow> nat \<Rightarrow> int" where
  \<comment> \<open>the number of payload bytes carried by the first \<open>k\<close> packets\<close>
  "received ps k = int (length (concat (map payload (take k ps))))"

definition zero_chunk :: "unicode_db \<Rightarrow> bytes option \<Rightarrow> bool" where
  \<comment> \<open>a framed response whose first field is zero: line 77 holds\<close>
  "zero_chunk db r = (case r of None \<Rightarrow> False | Some inp \<Rightarrow> has_marker inp \<and> declared_len db inp = Inr 0)"

definition no_marker :: "bytes option \<Rightarrow> bool" where
  \<comment> \<open>a response of two bytes or more whose first two bytes are not the marker: line 73 holds\<close>
  "no_marker r =
     (case r of
        None \<Rightarrow> False
      | Some inp \<Rightarrow> 2 \<le> length inp \<and> (inp ! 0 \<noteq> CHR ''#'' \<or> inp ! 1 \<noteq> CHR ''9''))"

text \<open>
  What storing packets does to the variables, written without the checks of the reader;
  the reassembly proof relates the reader to it.
\<close>

definition overwrite :: "bytes \<Rightarrow> int \<Rightarrow> bytes \<Rightarrow> bytes" where
  \<comment> \<open>the buffer with \<open>d\<close> copied in at position \<open>pos\<close>\<close>
  "overwrite buf pos d = take (nat pos) buf @ d @ drop (nat pos + length d) buf"

definition stored :: "unicode_db \<Rightarrow> rstate \<Rightarrow> bytes \<Rightarrow> rstate" where
  \<comment> \<open>the variables after lines 94 to 101 have stored packet \<open>p\<close> at its write offset\<close>
  "stored db st p =
     st\<lparr>samples_data := overwrite (samples_data st) (write_offset db p) (payload p),
        samples_got := samples_got st + int (length (payload p)),
        progress := progress st @ [(samples_got st + int (length (payload p)), samples_total st)]\<rparr>"

fun run_state :: "unicode_db \<Rightarrow> rstate \<Rightarrow> bytes list \<Rightarrow> rstate" where
  \<comment> \<open>the variables after storing the packets one after the other\<close>
  "run_state db st [] = st"
| "run_state db st (p # ps) = run_state db (stored db st p) ps"

definition in_range :: "unicode_db \<Rightarrow> int \<Rightarrow> bytes \<Rightarrow> bool" where
  \<comment> \<open>the payload of \<open>p\<close> lies within a buffer of \<open>T\<close> bytes\<close>
  "in_range db T p \<longleftrightarrow> 0 \<le> write_offset db p \<and> write_offset db p + int (length (payload p)) \<le> T"

definition apart :: "unicode_db \<Rightarrow> bytes \<Rightarrow> bytes \<Rightarrow> bool" where
  \<comment> \<open>the payloads of \<open>p\<close> and \<open>q\<close> do not overlap\<close>
  "apart db p q \<longleftrightarrow>
     write_offset db p + int (length (payload p)) \<le> write_offset db q
     \<or> write_offset db q + int (length (payload q)) \<le> write_offset db p"

definition covers :: "unicode_db \<Rightarrow> bytes \<Rightarrow> nat \<Rightarrow> bool" where
  \<comment> \<open>position \<open>i\<close> of the buffer is written by packet \<open>p\<close>\<close>
  "covers db p i \<longleftrightarrow> nat (write_offset db p) \<le> i \<and> i < nat (write_offset db p) + length (payload p)"

definition buf_after :: "unicode_db \<Rightarrow> bytes \<Rightarrow> bytes list \<Rightarrow> bytes" where
  \<comment> \<open>the buffer after the payloads of the packets have been copied in, in this order\<close>
  "buf_after db b ps = fold (\<lambda>p b. overwrite b (write_offset db p) (payload p)) ps b"

definition block_at :: "bytes \<Rightarrow> nat \<Rightarrow> int list" where
  \<comment> \<open>the 2000 bytes from position \<open>s\<close> on, as signed samples\<close>
  "block_at buf s = map signed_byte (take 2000 (drop s buf))"

definition rounds :: "nat \<Rightarrow> int \<Rightarrow> int \<Rightarrow> nat" where
  \<comment> \<open>how many of the positions \<open>(k - 1) \<times> 2000 + j \<times> 2000 \<times> n\<close> lie below \<open>len\<close>\<close>
  "rounds len k n = nat ((int len - (k - 1) * 2000 + 2000 * n - 1) div (2000 * n))"

section \<open>Example data\<close>

definition frame :: "string \<Rightarrow> string \<Rightarrow> string \<Rightarrow> bytes \<Rightarrow> bytes \<Rightarrow> bytes" where
  \<comment> \<open>a response laid out as \<open>readPacket\<close> reads it: marker, three header fields, metadata, payload\<close>
  "frame l t p m d = ''#9'' @ l @ t @ p @ m @ d"

definition meta_ex :: bytes where
  \<comment> \<open>a metadata region: two channels enabled, 100 MSa/s, trigger time 1 ms\<close>
  "meta_ex =
     ''11'' @ replicate 16 (CHR 0x00) @ ''1.00e+0'' @ ''1.00e+0'' @ ''0000000'' @ ''0000000''
     @ ''1100'' @ ''1.000E+08'' @ ''000001'' @ replicate 9 (CHR 0x00) @ ''1.000E-03''
     @ ''000000'' @ replicate 10 (CHR 0x00)"

definition meta_bad_tt :: bytes where
  \<comment> \<open>as \<open>meta_ex\<close>, with a trigger-time field that is not a number\<close>
  "meta_bad_tt =
     ''11'' @ replicate 16 (CHR 0x00) @ ''1.00e+0'' @ ''1.00e+0'' @ ''0000000'' @ ''0000000''
     @ ''1100'' @ ''1.000E+08'' @ ''000001'' @ replicate 9 (CHR 0x00) @ ''---------''
     @ ''000000'' @ replicate 10 (CHR 0x00)"

definition meta_bad_sr :: bytes where
  \<comment> \<open>as \<open>meta_ex\<close>, with a sampling-rate field that is not a number\<close>
  "meta_bad_sr =
     ''11'' @ replicate 16 (CHR 0x00) @ ''1.00e+0'' @ ''1.00e+0'' @ ''0000000'' @ ''0000000''
     @ ''1100'' @ ''---------'' @ ''000001'' @ replicate 9 (CHR 0x00) @ ''1.000E-03''
     @ ''000000'' @ replicate 10 (CHR 0x00)"

definition pkt_a :: bytes where
  "pkt_a = frame ''000002000'' ''000006000'' ''000000000'' meta_ex (replicate 2000 (CHR ''a''))"

definition pkt_b :: bytes where
  "pkt_b = frame ''000002000'' ''000006000'' ''000002000'' meta_ex (replicate 2000 (CHR ''b''))"

definition pkt_c :: bytes where
  "pkt_c = frame ''000002000'' ''000006000'' ''000004000'' meta_ex (replicate 2000 (CHR ''c''))"

definition pkt_6001 :: bytes where
  \<comment> \<open>a later packet that declares another total\<close>
  "pkt_6001 = frame ''000002000'' ''000006001'' ''000002000'' meta_ex (replicate 2000 (CHR ''x''))"

definition pkt_zero :: bytes where
  \<comment> \<open>the instrument has no data yet: chunk length zero\<close>
  "pkt_zero = frame ''000000000'' ''000000000'' ''000000000'' meta_ex []"

definition pkt_noise :: bytes where
  \<comment> \<open>a response without the marker\<close>
  "pkt_noise = ''ERROR''"

definition st_a :: rstate where
  "st_a = \<lparr>samples_data = replicate 2000 (CHR ''a'') @ replicate 4000 (CHR 0x00),
           samples_total = 6000, samples_got = 2000, meta = meta_ex, progress = [(2000, 6000)]\<rparr>"

definition st_ab :: rstate where
  "st_ab = \<lparr>samples_data = replicate 2000 (CHR ''a'') @ replicate 2000 (CHR ''b'')
                             @ replicate 2000 (CHR 0x00),
            samples_total = 6000, samples_got = 4000, meta = meta_ex,
            progress = [(2000, 6000), (4000, 6000)]\<rparr>"

definition st_abc :: rstate where
  "st_abc = \<lparr>samples_data = replicate 2000 (CHR ''a'') @ replicate 2000 (CHR ''b'')
                              @ replicate 2000 (CHR ''c''),
             samples_total = 6000, samples_got = 6000, meta = meta_ex,
             progress = [(2000, 6000), (4000, 6000), (6000, 6000)]\<rparr>"

definition buf4 :: bytes where
  \<comment> \<open>one round of two channels\<close>
  "buf4 = replicate 2000 (CHR ''a'') @ replicate 2000 (CHR 0xFF)"

definition buf8 :: bytes where
  \<comment> \<open>two rounds of two channels\<close>
  "buf8 = replicate 2000 (CHR ''a'') @ replicate 2000 (CHR ''b'')
          @ replicate 2000 (CHR ''c'') @ replicate 2000 (CHR ''d'')"

definition pkt_one :: "bytes \<Rightarrow> bytes" where
  \<comment> \<open>a transfer of 4000 samples in one packet, with the metadata region \<open>m\<close>\<close>
  "pkt_one m = frame ''000004000'' ''000004000'' ''000000000'' m buf4"

definition meta_ch1 :: bytes where
  \<comment> \<open>as \<open>meta_ex\<close>, with channel 1 alone enabled\<close>
  "meta_ch1 =
     ''11'' @ replicate 16 (CHR 0x00) @ ''1.00e+0'' @ ''1.00e+0'' @ ''0000000'' @ ''0000000''
     @ ''1000'' @ ''1.000E+08'' @ ''000001'' @ replicate 9 (CHR 0x00) @ ''1.000E-03''
     @ ''000000'' @ replicate 10 (CHR 0x00)"

definition sr_arabic :: bytes where
  \<comment> \<open>a sampling-rate field: \<open>1.0E+0\<close>, ARABIC-INDIC DIGIT EIGHT in UTF-8, and a blank\<close>
  "sr_arabic = ''1.0E+0'' @ [CHR 0xD9, CHR 0xA8] @ '' ''"

definition tt_nbsp :: bytes where
  \<comment> \<open>a trigger-time field: \<open>1.0E-3\<close>, NO-BREAK SPACE in UTF-8, and a blank\<close>
  "tt_nbsp = ''1.0E-3'' @ [CHR 0xC2, CHR 0xA0] @ '' ''"

definition meta_12 :: bytes where
  \<comment> \<open>as \<open>meta_ex\<close>, with the channel flags \<open>1\<close>, \<open>2\<close>, \<open>0\<close>, \<open>0\<close>\<close>
  "meta_12 =
     ''11'' @ replicate 16 (CHR 0x00) @ ''1.00e+0'' @ ''1.00e+0'' @ ''0000000'' @ ''0000000''
     @ ''1200'' @ ''1.000E+08'' @ ''000001'' @ replicate 9 (CHR 0x00) @ ''1.000E-03''
     @ ''000000'' @ replicate 10 (CHR 0x00)"

definition meta_raw :: bytes where
  \<comment> \<open>as \<open>meta_ex\<close>, with the channel flags as the raw byte values 1, 1, 0, 0\<close>
  "meta_raw =
     ''11'' @ replicate 16 (CHR 0x00) @ ''1.00e+0'' @ ''1.00e+0'' @ ''0000000'' @ ''0000000''
     @ [CHR 0x01, CHR 0x01, CHR 0x00, CHR 0x00] @ ''1.000E+08'' @ ''000001''
     @ replicate 9 (CHR 0x00) @ ''1.000E-03'' @ ''000000'' @ replicate 10 (CHR 0x00)"

definition pkt_ch1 :: bytes where
  \<comment> \<open>a transfer of one block of channel 1 in one packet\<close>
  "pkt_ch1 = frame ''000002000'' ''000002000'' ''000000000'' meta_ch1 (replicate 2000 (CHR ''a''))"

definition ucd :: unicode_db where
  \<comment> \<open>an excerpt of the Unicode tables: the white space above ASCII, and the decimal
      digits of the Arabic-Indic, Devanagari and fullwidth blocks\<close>
  "ucd =
     \<lparr>decimal_digit = (\<lambda>c. if 1632 \<le> c \<and> c \<le> 1641 then Some (c - 1632)
                            else if 2406 \<le> c \<and> c \<le> 2415 then Some (c - 2406)
                            else if 65296 \<le> c \<and> c \<le> 65305 then Some (c - 65296)
                            else None),
        white_space = (\<lambda>c. c \<in> set [133, 160, 5760, 8232, 8233, 8239, 8287, 12288]
                            \<or> (8192 \<le> c \<and> c \<le> 8202))\<rparr>"

definition instrument :: "bytes list \<Rightarrow> transport" where
  \<comment> \<open>an instrument that sends the given responses, with offset 0 V and scale 1 V\<close>
  "instrument ps =
     \<lparr>responses = script ps,
        offset_reply = (\<lambda>_. Some (map byte_val ''0.0'')),
        scale_reply = (\<lambda>_. Some (map byte_val ''1.0''))\<rparr>"

section \<open>Text that is ASCII\<close>

text \<open>On ASCII bytes no table is consulted: decoding and the two readers agree with
  the readers on bytes.\<close>

lemma utf8_ascii: "list_all (\<lambda>b. b < 128) bs \<Longrightarrow> utf8 bs = Some bs"
  by (induction bs) simp_all

lemma decode_ascii: "ascii bs \<Longrightarrow> decode bs = Inr (map byte_val bs)"
  by (simp add: decode_def ascii_def utf8_ascii list_all_iff)

lemma to_ascii_ascii: "ascii bs \<Longrightarrow> to_ascii db (map byte_val bs) = bs"
  by (induction bs) (simp_all add: to_ascii_def ascii_def byte_val_def)

lemma int_of_bytes_ascii: "ascii bs \<Longrightarrow> int_of_bytes db bs = py_int bs"
  by (simp add: int_of_bytes_def decode_ascii to_ascii_ascii)

lemma float_of_text_ascii: "ascii f \<Longrightarrow> float_of_text db f = py_float f"
  by (simp add: float_of_text_def decode_ascii to_ascii_ascii)

lemma strip_by_map: "strip_by p (map f xs) = map f (strip_by (p \<circ> f) xs)"
  by (simp add: strip_by_def dropWhile_map rev_map)

lemma ascii_strip_by: "ascii f \<Longrightarrow> ascii (strip_by p f)"
  unfolding ascii_def strip_by_def list_all_iff
  by (metis set_dropWhileD set_rev)

lemma float_of_stripped_ascii:
  "ascii f \<Longrightarrow> float_of_stripped db f = py_float (strip_by (str_space db \<circ> byte_val) f)"
  by (simp add: float_of_stripped_def decode_ascii strip_by_map to_ascii_ascii ascii_strip_by)

lemma to_double_0: "to_double 0 = Fin 0"
  by (simp add: to_double_def)

lemma to_double_Fin:
  assumes "1 / 2 ^ 20 \<le> \<bar>x\<bar>" "\<bar>x\<bar> \<le> 2 ^ 64"
  shows "to_double x = Fin x"
proof -
  have "(2::real) ^ 970 + 2 ^ 64 \<le> 2 ^ 970 + 2 ^ 970"
    by (intro add_left_mono power_increasing) simp_all
  also have "\<dots> = 2 ^ 971" by simp
  also have "\<dots> < (2::real) ^ 1024" by (intro power_strict_increasing) simp_all
  finally have hi: "\<bar>x\<bar> < 2 ^ 1024 - 2 ^ 970" using assms(2) by linarith
  have "(1::real) / 2 ^ 1075 < 1 / 2 ^ 20"
    by (intro divide_strict_left_mono power_strict_increasing) simp_all
  then have lo: "1 / 2 ^ 1075 < \<bar>x\<bar>" using assms(1) by linarith
  show ?thesis using hi lo by (simp add: to_double_def)
qed

section \<open>The packet reader: basic facts\<close>

lemma set_item_ok:
  "0 \<le> pos \<Longrightarrow> nat pos < length buf \<Longrightarrow> set_item buf pos b = Inr (buf[nat pos := b])"
  by (simp add: set_item_def Let_def)

lemma write_bytes_ok:
  "0 \<le> pos \<Longrightarrow> nat pos + length bs \<le> length buf \<Longrightarrow>
   write_bytes buf pos bs = Inr (overwrite buf pos bs)"
proof (induction bs arbitrary: buf pos)
  case Nil
  then show ?case by (simp add: overwrite_def)
next
  case (Cons b bs)
  have lt: "nat pos < length buf" using Cons.prems by simp
  have step: "set_item buf pos b = Inr (buf[nat pos := b])"
    using Cons.prems by (simp add: set_item_ok)
  have nat1: "nat (pos + 1) = Suc (nat pos)" using Cons.prems by simp
  have rec: "write_bytes (buf[nat pos := b]) (pos + 1) bs = Inr (overwrite (buf[nat pos := b]) (pos + 1) bs)"
    using Cons.prems by (intro Cons.IH) (simp_all add: nat1)
  have "take (Suc k) (buf[k := b]) @ bs @ drop (Suc k + length bs) (buf[k := b])
        = take k buf @ (b # bs) @ drop (k + length (b # bs)) buf" if "k < length buf" for k
    using that by (simp add: take_Suc_conv_app_nth)
  from this [OF lt]
  have "overwrite (buf[nat pos := b]) (pos + 1) bs = overwrite buf pos (b # bs)"
    unfolding overwrite_def nat1 .
  with step rec show ?case by simp
qed

lemma length_overwrite:
  "0 \<le> pos \<Longrightarrow> nat pos + length d \<le> length buf \<Longrightarrow> length (overwrite buf pos d) = length buf"
  by (simp add: overwrite_def)

lemma store_packet_ok:
  assumes "0 \<le> write_offset db p" "nat (write_offset db p) + length (payload p) \<le> length (samples_data st)"
    and "payload p \<noteq> []"
  shows "store_packet p (write_offset db p) st =
         Inr (samples_got st + int (length (payload p)) = samples_total st, stored db st p)"
proof -
  have "128 \<le> length p" using assms(3) by (simp add: payload_def)
  then have "int (length p) - 128 = int (length (payload p))" by (simp add: payload_def)
  then show ?thesis
    using assms(1,2) by (simp add: store_packet_def write_bytes_ok stored_def Let_def)
qed

lemma readPacket_next:
  assumes "wf_packet db T p" "samples_total st = T" "T \<noteq> - 1"
  shows "readPacket db (Some p) st = store_packet p (write_offset db p) st"
  using assms by (auto simp: readPacket_def wf_packet_def has_marker_def)

lemma readPacket_first:
  assumes "wf_packet db T p" "samples_total st = - 1" "0 \<le> T"
  shows "readPacket db (Some p) st =
         store_packet p (write_offset db p)
           (st\<lparr>samples_total := T, samples_data := replicate (nat T) (CHR 0x00), meta := py_slice 29 128 p\<rparr>)"
  using assms by (auto simp: readPacket_def wf_packet_def has_marker_def)

lemma read_all_run:
  assumes "\<And>i. i < length ps \<Longrightarrow> tr (n + i) = Some (ps ! i)"
    and "\<And>p. p \<in> set ps \<Longrightarrow> wf_packet db T p \<and> in_range db T p"
    and "samples_total st = T" "0 \<le> T" "length (samples_data st) = nat T"
    and "samples_got st + received ps (length ps) = T"
    and "ps \<noteq> []"
  shows "read_all db tr n st = Some (Inr (run_state db st ps))"
  using assms
proof (induction ps arbitrary: n st)
  case Nil
  then show ?case by simp
next
  case (Cons p ps)
  have wf: "wf_packet db T p" and rng: "in_range db T p" using Cons.prems(2) by simp_all
  have tr0: "tr n = Some p" using Cons.prems(1) [of 0] by simp
  have ne: "payload p \<noteq> []" using wf by (simp add: wf_packet_def)
  have fits: "0 \<le> write_offset db p" "nat (write_offset db p) + length (payload p) \<le> length (samples_data st)"
    using rng Cons.prems(4,5) by (auto simp: in_range_def)
  have rp: "readPacket db (tr n) st =
            Inr (samples_got st + int (length (payload p)) = samples_total st, stored db st p)"
    using wf Cons.prems(3,4) fits ne by (simp add: tr0 readPacket_next store_packet_ok)
  have recv: "received (p # ps) (length (p # ps)) = int (length (payload p)) + received ps (length ps)"
    by (simp add: received_def)
  show ?case
  proof (cases "ps = []")
    case True
    then have "samples_got st + int (length (payload p)) = samples_total st"
      using Cons.prems(6) Cons.prems(3) by (simp add: received_def)
    then show ?thesis using rp True by (subst read_all.simps) simp
  next
    case False
    then obtain q where q: "q \<in> set ps" by (cases ps) auto
    then have "payload q \<noteq> []" using Cons.prems(2) [of q] by (simp add: wf_packet_def)
    then have "0 < received ps (length ps)"
      using q by (auto simp: received_def)
    then have notdone: "samples_got st + int (length (payload p)) \<noteq> samples_total st"
      using Cons.prems(6) Cons.prems(3) recv by simp
    have "read_all db tr (Suc n) (stored db st p) = Some (Inr (run_state db (stored db st p) ps))"
    proof (rule Cons.IH)
      fix i assume "i < length ps"
      then show "tr (Suc n + i) = Some (ps ! i)" using Cons.prems(1) [of "Suc i"] by simp
    next
      fix q assume "q \<in> set ps"
      then show "wf_packet db T q \<and> in_range db T q" using Cons.prems(2) by simp
    next
      show "samples_total (stored db st p) = T" using Cons.prems(3) by (simp add: stored_def)
      show "0 \<le> T" by fact
      show "length (samples_data (stored db st p)) = nat T"
        using fits Cons.prems(5) by (simp add: stored_def length_overwrite)
      show "samples_got (stored db st p) + received ps (length ps) = T"
        using Cons.prems(6) recv by (simp add: stored_def)
      show "ps \<noteq> []" by fact
    qed
    then show ?thesis using rp notdone by (subst read_all.simps) simp
  qed
qed

lemma tiles_hi: "tiles db lo qs hi \<Longrightarrow> hi = lo + received qs (length qs)"
proof (induction qs arbitrary: lo)
  case Nil
  then show ?case by (simp add: received_def)
next
  case (Cons p qs)
  then have "hi = (lo + int (length (payload p))) + received qs (length qs)" by simp
  then show ?case by (simp add: received_def)
qed

lemma tiles_le: "tiles db lo qs hi \<Longrightarrow> lo \<le> hi"
  by (drule tiles_hi) (simp add: received_def)

lemma tiles_bounds:
  "tiles db lo qs hi \<Longrightarrow> q \<in> set qs \<Longrightarrow>
   lo \<le> write_offset db q \<and> write_offset db q + int (length (payload q)) \<le> hi"
proof (induction qs arbitrary: lo)
  case Nil
  then show ?case by simp
next
  case (Cons p qs)
  have rest: "tiles db (lo + int (length (payload p))) qs hi" and off: "write_offset db p = lo"
    using Cons.prems(1) by simp_all
  show ?case
  proof (cases "q = p")
    case True
    then show ?thesis using off tiles_le [OF rest] by simp
  next
    case False
    then have "q \<in> set qs" using Cons.prems(2) by simp
    from Cons.IH [OF rest this] show ?thesis by simp
  qed
qed

lemma tiles_apart:
  assumes "tiles db lo qs hi" "\<And>q. q \<in> set qs \<Longrightarrow> payload q \<noteq> []"
  shows "distinct (map (write_offset db) qs) \<and>
         (\<forall>p\<in>set qs. \<forall>q\<in>set qs. write_offset db p \<noteq> write_offset db q \<longrightarrow> apart db p q)"
  using assms
proof (induction qs arbitrary: lo)
  case Nil
  then show ?case by simp
next
  case (Cons p qs)
  have rest: "tiles db (lo + int (length (payload p))) qs hi" and off: "write_offset db p = lo"
    using Cons.prems(1) by simp_all
  have pos: "0 < int (length (payload p))" using Cons.prems(2) [of p] by simp
  have after: "write_offset db p + int (length (payload p)) \<le> write_offset db q" if "q \<in> set qs" for q
    using tiles_bounds [OF rest that] off by simp
  have IH: "distinct (map (write_offset db) qs) \<and>
         (\<forall>p\<in>set qs. \<forall>q\<in>set qs. write_offset db p \<noteq> write_offset db q \<longrightarrow> apart db p q)"
    using Cons.IH [OF rest] Cons.prems(2) by simp
  have "write_offset db p \<notin> write_offset db ` set qs"
    using after pos by force
  moreover have "apart db p q" "apart db q p" if "q \<in> set qs" for q
    using after [OF that] by (simp_all add: apart_def)
  ultimately show ?case using IH by auto
qed

lemma run_state_data: "samples_data (run_state db st ps) = buf_after db (samples_data st) ps"
  by (induction ps arbitrary: st) (simp_all add: buf_after_def stored_def)

lemma run_state_total: "samples_total (run_state db st ps) = samples_total st"
  by (induction ps arbitrary: st) (simp_all add: stored_def)

lemma run_state_meta: "meta (run_state db st ps) = meta st"
  by (induction ps arbitrary: st) (simp_all add: stored_def)

lemma received_Cons: "received (p # ps) (Suc k) = int (length (payload p)) + received ps k"
  by (simp add: received_def)

lemma run_state_got: "samples_got (run_state db st ps) = samples_got st + received ps (length ps)"
proof (induction ps arbitrary: st)
  case Nil
  show ?case by (simp add: received_def)
next
  case (Cons p ps)
  show ?case by (simp add: Cons.IH received_Cons) (simp add: stored_def)
qed

lemma upt_0_Suc: "[0..<Suc n] = 0 # map Suc [0..<n]"
  by (simp add: upt_conv_Cons map_Suc_upt del: upt_Suc)

lemma run_state_progress:
  "progress (run_state db st ps) =
     progress st @ map (\<lambda>k. (samples_got st + received ps (Suc k), samples_total st)) [0..<length ps]"
proof (induction ps arbitrary: st)
  case Nil
  show ?case by simp
next
  case (Cons p ps)
  have got: "samples_got (stored db st p) = samples_got st + int (length (payload p))"
    and tot: "samples_total (stored db st p) = samples_total st"
    and prog: "progress (stored db st p) = progress st @ [(samples_got st + int (length (payload p)), samples_total st)]"
    by (simp_all add: stored_def)
  have len: "[0..<length (p # ps)] = 0 # map Suc [0..<length ps]"
    using upt_0_Suc [of "length ps"] by simp
  have r0: "received (p # ps) (Suc 0) = int (length (payload p))"
    by (simp add: received_def)
  show ?case
    unfolding run_state.simps Cons.IH got tot prog len
    by (simp add: received_Cons r0 comp_def add.assoc) (simp add: received_def)
qed

lemma nth_overwrite:
  assumes "0 \<le> pos" "nat pos + length d \<le> length b" "i < length b"
  shows "overwrite b pos d ! i =
         (if nat pos \<le> i \<and> i < nat pos + length d then d ! (i - nat pos) else b ! i)"
  using assms by (auto simp: overwrite_def nth_append)

lemma read_all_continue:
  "readPacket db (tr n) st = Inr (False, st') \<Longrightarrow> read_all db tr n st = read_all db tr (Suc n) st'"
  by (subst read_all.simps) simp

lemma read_all_done:
  "readPacket db (tr n) st = Inr (True, st') \<Longrightarrow> read_all db tr n st = Some (Inr st')"
  by (subst read_all.simps) simp

lemma read_all_raise:
  "readPacket db (tr n) st = Inl e \<Longrightarrow> read_all db tr n st = Some (Inl e)"
  by (subst read_all.simps) simp

lemma length_meta_ex: "length meta_ex = 99"
  by (simp add: meta_ex_def)

lemma frame_fields:
  assumes "length l = 9" "length t = 9" "length p = 9"
  shows "has_marker (frame l t p m d)"
    and "declared_len db (frame l t p m d) = int_of_bytes db l"
    and "declared_total db (frame l t p m d) = int_of_bytes db t"
    and "declared_pos db (frame l t p m d) = int_of_bytes db p"
  using assms
  by (simp_all add: frame_def has_marker_def declared_len_def declared_total_def declared_pos_def py_slice_def)

lemma frame_payload:
  assumes "length l = 9" "length t = 9" "length p = 9" "length m = 99"
  shows "payload (frame l t p m d) = d" and "py_slice 29 128 (frame l t p m d) = m"
  using assms by (simp_all add: frame_def payload_def py_slice_def)

lemmas int_eval = int_of_bytes_ascii ascii_def py_int_def strip_by_def is_space_def byte_val_def
  split_sign_def is_digit_def digits_val_def digit_val_def

lemma hdr_2000: "int_of_bytes db ''000002000'' = Inr 2000" by (simp add: int_eval)

lemma hdr_6000: "int_of_bytes db ''000006000'' = Inr 6000" by (simp add: int_eval)

lemma hdr_6001: "int_of_bytes db ''000006001'' = Inr 6001" by (simp add: int_eval)

lemma hdr_4000: "int_of_bytes db ''000004000'' = Inr 4000" by (simp add: int_eval)

lemma hdr_0: "int_of_bytes db ''000000000'' = Inr 0" by (simp add: int_eval)

lemma wf_abc: "wf_packet db 6000 pkt_a" "wf_packet db 6000 pkt_b" "wf_packet db 6000 pkt_c"
  by (simp_all add: wf_packet_def pkt_a_def pkt_b_def pkt_c_def frame_fields frame_payload
      length_meta_ex write_offset_def hdr_2000 hdr_6000 hdr_4000 hdr_0)

lemma off_abc: "write_offset db pkt_a = 0" "write_offset db pkt_b = 2000" "write_offset db pkt_c = 4000"
  by (simp_all add: pkt_a_def pkt_b_def pkt_c_def frame_fields write_offset_def hdr_2000 hdr_4000 hdr_0)

lemma payload_abc:
  "payload pkt_a = replicate 2000 (CHR ''a'')"
  "payload pkt_b = replicate 2000 (CHR ''b'')"
  "payload pkt_c = replicate 2000 (CHR ''c'')"
  by (simp_all add: pkt_a_def pkt_b_def pkt_c_def frame_payload length_meta_ex)

lemma meta_a: "py_slice 29 128 pkt_a = meta_ex"
  by (simp add: pkt_a_def frame_payload length_meta_ex)

lemma step_a: "readPacket db (Some pkt_a) init_state = Inr (False, st_a)"
proof -
  have "readPacket db (Some pkt_a) init_state =
        store_packet pkt_a (write_offset db pkt_a)
          (init_state\<lparr>samples_total := 6000, samples_data := replicate (nat 6000) (CHR 0x00),
             meta := py_slice 29 128 pkt_a\<rparr>)"
    by (rule readPacket_first [OF wf_abc(1)]) (simp_all add: init_state_def)
  also have "\<dots> = Inr (False, st_a)"
    by (subst store_packet_ok)
       (simp_all add: off_abc payload_abc stored_def init_state_def st_a_def overwrite_def meta_a)
  finally show ?thesis .
qed

lemma step_b: "readPacket db (Some pkt_b) st_a = Inr (False, st_ab)"
proof -
  have "readPacket db (Some pkt_b) st_a = store_packet pkt_b (write_offset db pkt_b) st_a"
    by (rule readPacket_next [OF wf_abc(2)]) (simp_all add: st_a_def)
  also have "\<dots> = Inr (False, st_ab)"
    by (subst store_packet_ok)
       (simp_all add: off_abc payload_abc stored_def st_a_def st_ab_def overwrite_def)
  finally show ?thesis .
qed

lemma step_c: "readPacket db (Some pkt_c) st_ab = Inr (True, st_abc)"
proof -
  have "readPacket db (Some pkt_c) st_ab = store_packet pkt_c (write_offset db pkt_c) st_ab"
    by (rule readPacket_next [OF wf_abc(3)]) (simp_all add: st_ab_def)
  also have "\<dots> = Inr (True, st_abc)"
    by (subst store_packet_ok)
       (simp_all add: off_abc payload_abc stored_def st_ab_def st_abc_def overwrite_def)
  finally show ?thesis .
qed

lemma read_all_skip_many:
  "(\<And>i. i < k \<Longrightarrow> readPacket db (tr (n + i)) st = Inr (False, st)) \<Longrightarrow>
   read_all db tr n st = read_all db tr (n + k) st"
proof (induction k arbitrary: n)
  case 0
  show ?case by simp
next
  case (Suc k)
  have "readPacket db (tr n) st = Inr (False, st)"
    using Suc.prems [of 0] by simp
  then have "read_all db tr n st = read_all db tr (Suc n) st"
    by (rule read_all_continue)
  also have "\<dots> = read_all db tr (Suc n + k) st"
  proof (rule Suc.IH)
    fix i assume "i < k"
    then show "readPacket db (tr (Suc n + i)) st = Inr (False, st)"
      using Suc.prems [of "Suc i"] by simp
  qed
  finally show ?case by simp
qed

text \<open>A loop that returns has met a response that it did not discard.\<close>

lemma read_all_Some_progress:
  assumes "read_all db tr n st = Some y"
  shows "\<exists>m\<ge>n. readPacket db (tr m) st \<noteq> Inr (False, st)"
proof (rule read_all.raw_induct [where P = "\<lambda>db tr n st y. \<exists>m\<ge>n. readPacket db (tr m) st \<noteq> Inr (False, st)", OF _ assms])
  fix f :: "unicode_db \<Rightarrow> frames \<Rightarrow> nat \<Rightarrow> rstate \<Rightarrow> (exn + rstate) option"
    and db tr n st y
  assume IH: "\<And>db tr n st y. f db tr n st = Some y \<Longrightarrow> \<exists>m\<ge>n. readPacket db (tr m) st \<noteq> Inr (False, st)"
    and step: "(case readPacket db (tr n) st of
        Inl e \<Rightarrow> Some (Inl e)
      | Inr (done, st') \<Rightarrow> if done then Some (Inr st') else f db tr (Suc n) st') = Some y"
  show "\<exists>m\<ge>n. readPacket db (tr m) st \<noteq> Inr (False, st)"
  proof (cases "readPacket db (tr n) st = Inr (False, st)")
    case True
    with step have "f db tr (Suc n) st = Some y" by simp
    then obtain m where "Suc n \<le> m" "readPacket db (tr m) st \<noteq> Inr (False, st)"
      using IH by blast
    then show ?thesis by (intro exI [of _ m]) simp
  next
    case False
    then show ?thesis by blast
  qed
qed

lemma read_all_forever:
  assumes "\<And>m. n \<le> m \<Longrightarrow> readPacket db (tr m) st = Inr (False, st)"
  shows "read_all db tr n st = None"
proof (cases "read_all db tr n st")
  case None
  then show ?thesis .
next
  case (Some y)
  then have "\<exists>m\<ge>n. readPacket db (tr m) st \<noteq> Inr (False, st)"
    by (rule read_all_Some_progress)
  with assms show ?thesis by blast
qed

lemma readPacket_no_marker:
  "no_marker r \<Longrightarrow> readPacket db r st = Inr (False, st)"
  by (auto simp: readPacket_def no_marker_def split: option.splits)

lemma readPacket_zero_chunk:
  "zero_chunk db r \<Longrightarrow> readPacket db r st = Inr (False, st)"
  by (auto simp: readPacket_def zero_chunk_def has_marker_def split: option.splits)

lemma readPacket_mismatch:
  "has_marker inp \<Longrightarrow> declared_len db inp = Inr l \<Longrightarrow> declared_total db inp = Inr t \<Longrightarrow>
   declared_pos db inp = Inr p \<Longrightarrow> samples_total st \<noteq> - 1 \<Longrightarrow> samples_total st \<noteq> t \<Longrightarrow>
   readPacket db (Some inp) st = Inr (False, st)"
  by (auto simp: readPacket_def has_marker_def)

lemma fields_6001:
  "has_marker pkt_6001" "declared_len db pkt_6001 = Inr 2000" "declared_total db pkt_6001 = Inr 6001"
  "declared_pos db pkt_6001 = Inr 2000"
  by (simp_all add: pkt_6001_def frame_fields hdr_2000 hdr_6001)

lemma zero_chunk_pkt_zero: "zero_chunk db (Some pkt_zero)"
  by (simp add: zero_chunk_def pkt_zero_def frame_fields hdr_0)

lemma no_marker_pkt_noise: "no_marker (Some pkt_noise)"
  by (simp add: no_marker_def pkt_noise_def)

section \<open>Claims about the packet reader\<close>

text \<open>
  C1, as the code has it. Once a transfer is in progress (\<open>samples_total\<close> is no longer
  \<open>-1\<close>), take a framed response whose three header fields, the chunk length, the total
  and the write offset, all read as integers (the code reads the three of them before it
  compares the totals), with a chunk length other than zero. If it declares another total,
  \<open>readPacket\<close> returns \<open>False\<close> with every variable unchanged: nothing is copied into
  the buffer, nothing is counted, the observer is not called. The loop then sends the next
  query; there is no failure.
\<close>

theorem mismatch_is_discarded:
  assumes "tr n = Some inp" and "has_marker inp"
    and "declared_len db inp = Inr l" and "l \<noteq> 0"
    and "declared_total db inp = Inr t" and "declared_pos db inp = Inr p"
    and "samples_total st \<noteq> - 1" and "samples_total st \<noteq> t"
  shows "readPacket db (tr n) st = Inr (False, st) \<and> read_all db tr n st = read_all db tr (Suc n) st"
proof -
  have "readPacket db (tr n) st = Inr (False, st)"
    unfolding assms(1) using assms(2,3,5,6,7,8) by (rule readPacket_mismatch)
  then show ?thesis by (simp add: read_all_continue)
qed

theorem mismatch_is_discarded_witness:
  "script [pkt_a, pkt_6001, pkt_b, pkt_c] 1 = Some pkt_6001 \<and> has_marker pkt_6001
   \<and> declared_len ucd pkt_6001 = Inr 2000 \<and> (2000 :: int) \<noteq> 0
   \<and> declared_total ucd pkt_6001 = Inr 6001 \<and> declared_pos ucd pkt_6001 = Inr 2000
   \<and> samples_total st_a \<noteq> - 1 \<and> samples_total st_a \<noteq> 6001
   \<and> readPacket ucd (script [pkt_a, pkt_6001, pkt_b, pkt_c] 1) st_a = Inr (False, st_a)
   \<and> read_all ucd (script [pkt_a, pkt_6001, pkt_b, pkt_c]) 1 st_a
       = read_all ucd (script [pkt_a, pkt_6001, pkt_b, pkt_c]) (Suc 1) st_a"
proof -
  have 1: "script [pkt_a, pkt_6001, pkt_b, pkt_c] 1 = Some pkt_6001"
    by (simp add: script_def)
  have 2: "(2000 :: int) \<noteq> 0" by simp
  have 3: "samples_total st_a \<noteq> - 1" "samples_total st_a \<noteq> 6001"
    by (simp_all add: st_a_def)
  from mismatch_is_discarded
    [of "script [pkt_a, pkt_6001, pkt_b, pkt_c]" 1 pkt_6001 ucd 2000 6001 2000 st_a,
     OF 1 fields_6001(1) fields_6001(2) 2 fields_6001(3) fields_6001(4) 3]
  show ?thesis using 1 3 fields_6001 by simp
qed

text \<open>
  C1 as stated fails: the first packet declares 6000 samples, the second 6001, and the
  read does not fail. The second packet is dropped and the transfer completes from the two
  packets that follow.
\<close>

theorem mismatch_counterexample:
  "read_all ucd (script [pkt_a, pkt_6001, pkt_b, pkt_c]) 0 init_state = Some (Inr st_abc)"
proof -
  let ?tr = "script [pkt_a, pkt_6001, pkt_b, pkt_c]"
  have tr: "?tr 0 = Some pkt_a" "?tr (Suc 0) = Some pkt_6001" "?tr (Suc (Suc 0)) = Some pkt_b"
    "?tr (Suc (Suc (Suc 0))) = Some pkt_c"
    by (simp_all add: script_def)
  have "read_all ucd ?tr 0 init_state = read_all ucd ?tr (Suc 0) st_a"
    by (rule read_all_continue) (simp add: tr step_a)
  also have "\<dots> = read_all ucd ?tr (Suc (Suc 0)) st_a"
    by (rule read_all_continue, unfold tr, rule readPacket_mismatch [OF fields_6001])
       (simp_all add: st_a_def)
  also have "\<dots> = read_all ucd ?tr (Suc (Suc (Suc 0))) st_ab"
    by (rule read_all_continue) (simp add: tr step_b)
  also have "\<dots> = Some (Inr st_abc)"
    by (rule read_all_done) (simp add: tr step_c)
  finally show ?thesis .
qed

text \<open>
  C2, as the code has it. A framed response whose chunk length is zero makes
  \<open>readPacket\<close> return \<open>False\<close> with every variable unchanged, and the loop sends the
  next query. However many such responses come in a row, the loop goes on past them; it
  counts no attempts and raises no timeout, so when every response is of this kind the
  loop never returns.
\<close>

theorem zero_chunk_retry_unbounded:
  "((\<forall>i<k. zero_chunk db (tr (n + i))) \<longrightarrow> read_all db tr n st = read_all db tr (n + k) st)
   \<and> ((\<forall>m\<ge>n. zero_chunk db (tr m)) \<longrightarrow> read_all db tr n st = None)"
proof (intro conjI impI)
  assume "\<forall>i<k. zero_chunk db (tr (n + i))"
  then show "read_all db tr n st = read_all db tr (n + k) st"
    by (intro read_all_skip_many readPacket_zero_chunk) simp
next
  assume "\<forall>m\<ge>n. zero_chunk db (tr m)"
  then show "read_all db tr n st = None"
    by (intro read_all_forever readPacket_zero_chunk) simp
qed

theorem zero_chunk_retry_unbounded_witness:
  "zero_chunk ucd (Some pkt_zero)
   \<and> read_all ucd (\<lambda>_. Some pkt_zero) 0 init_state = read_all ucd (\<lambda>_. Some pkt_zero) (0 + 3) init_state
   \<and> read_all ucd (\<lambda>_. Some pkt_zero) 0 init_state = None"
proof -
  have z: "\<forall>i<3. zero_chunk ucd ((\<lambda>_. Some pkt_zero) (0 + i))" "\<forall>m\<ge>0. zero_chunk ucd ((\<lambda>_. Some pkt_zero) m)"
    by (simp_all add: zero_chunk_pkt_zero)
  from zero_chunk_retry_unbounded [of 3 ucd "\<lambda>_. Some pkt_zero" 0 init_state] z
  have "read_all ucd (\<lambda>_. Some pkt_zero) 0 init_state = read_all ucd (\<lambda>_. Some pkt_zero) (0 + 3) init_state"
    and "read_all ucd (\<lambda>_. Some pkt_zero) 0 init_state = None"
    by blast+
  with zero_chunk_pkt_zero show ?thesis by blast
qed

text \<open>
  C2 as stated fails: against an instrument that always answers with chunk length zero, the
  loop does not end with a timeout; it does not end.
\<close>

theorem zero_chunk_counterexample:
  "read_all ucd (\<lambda>_. Some pkt_zero) 0 init_state = None"
  by (rule read_all_forever) (simp add: readPacket_zero_chunk zero_chunk_pkt_zero)

text \<open>
  C8, as the code has it. A response of at least two bytes whose first two bytes are not
  \<open>#\<close> and \<open>9\<close> makes \<open>readPacket\<close> return \<open>False\<close> with every variable unchanged,
  and the loop sends the next query; no failure is reported.
\<close>

theorem no_marker_is_discarded:
  assumes "no_marker (tr n)"
  shows "readPacket db (tr n) st = Inr (False, st) \<and> read_all db tr n st = read_all db tr (Suc n) st"
proof -
  have "readPacket db (tr n) st = Inr (False, st)"
    using assms by (rule readPacket_no_marker)
  then show ?thesis by (simp add: read_all_continue)
qed

theorem no_marker_is_discarded_witness:
  "no_marker (script [pkt_noise, pkt_a, pkt_b, pkt_c] 0)
   \<and> readPacket ucd (script [pkt_noise, pkt_a, pkt_b, pkt_c] 0) init_state = Inr (False, init_state)
   \<and> read_all ucd (script [pkt_noise, pkt_a, pkt_b, pkt_c]) 0 init_state
       = read_all ucd (script [pkt_noise, pkt_a, pkt_b, pkt_c]) (Suc 0) init_state"
proof -
  have 1: "no_marker (script [pkt_noise, pkt_a, pkt_b, pkt_c] 0)"
    by (simp add: script_def no_marker_pkt_noise)
  from no_marker_is_discarded [of "script [pkt_noise, pkt_a, pkt_b, pkt_c]" 0 ucd init_state, OF 1]
  show ?thesis using 1 by simp
qed

text \<open>
  C8 as stated fails. A response without the marker does not end the read: when the
  transfer follows it, the read succeeds, and when every response lacks the marker, the
  loop retries without end.
\<close>

theorem no_marker_counterexample:
  "read_all ucd (script [pkt_noise, pkt_a, pkt_b, pkt_c]) 0 init_state = Some (Inr st_abc)
   \<and> read_all ucd (\<lambda>_. Some pkt_noise) 0 init_state = None"
proof
  let ?tr = "script [pkt_noise, pkt_a, pkt_b, pkt_c]"
  have tr: "?tr 0 = Some pkt_noise" "?tr (Suc 0) = Some pkt_a" "?tr (Suc (Suc 0)) = Some pkt_b"
    "?tr (Suc (Suc (Suc 0))) = Some pkt_c"
    by (simp_all add: script_def)
  have "read_all ucd ?tr 0 init_state = read_all ucd ?tr (Suc 0) init_state"
    by (rule read_all_continue) (simp add: tr readPacket_no_marker no_marker_pkt_noise)
  also have "\<dots> = read_all ucd ?tr (Suc (Suc 0)) st_a"
    by (rule read_all_continue) (simp add: tr step_a)
  also have "\<dots> = read_all ucd ?tr (Suc (Suc (Suc 0))) st_ab"
    by (rule read_all_continue) (simp add: tr step_b)
  also have "\<dots> = Some (Inr st_abc)"
    by (rule read_all_done) (simp add: tr step_c)
  finally show "read_all ucd ?tr 0 init_state = Some (Inr st_abc)" .
next
  show "read_all ucd (\<lambda>_. Some pkt_noise) 0 init_state = None"
    by (rule read_all_forever) (simp add: readPacket_no_marker no_marker_pkt_noise)
qed

section \<open>Claim about the reassembly of a whole transfer\<close>

lemma in_range_fits:
  "in_range db T p \<Longrightarrow> length b = nat T \<Longrightarrow>
   0 \<le> write_offset db p \<and> nat (write_offset db p) + length (payload p) \<le> length b"
  by (auto simp: in_range_def)

lemma buf_after_Cons:
  "buf_after db b (p # ps) = buf_after db (overwrite b (write_offset db p) (payload p)) ps"
  by (simp add: buf_after_def)

lemma length_buf_after:
  "(\<And>p. p \<in> set ps \<Longrightarrow> in_range db T p) \<Longrightarrow> length b = nat T \<Longrightarrow> length (buf_after db b ps) = nat T"
proof (induction ps arbitrary: b)
  case Nil
  then show ?case by (simp add: buf_after_def)
next
  case (Cons p ps)
  have "length (overwrite b (write_offset db p) (payload p)) = nat T"
    using in_range_fits [of db T p b] Cons.prems by (simp add: length_overwrite)
  then show ?case
    unfolding buf_after_Cons using Cons.prems(1) by (intro Cons.IH) simp_all
qed

lemma buf_after_outside:
  assumes "\<And>p. p \<in> set ps \<Longrightarrow> in_range db T p" "length b = nat T" "i < nat T"
    and "\<And>p. p \<in> set ps \<Longrightarrow> \<not> covers db p i"
  shows "buf_after db b ps ! i = b ! i"
  using assms
proof (induction ps arbitrary: b)
  case Nil
  then show ?case by (simp add: buf_after_def)
next
  case (Cons p ps)
  let ?b = "overwrite b (write_offset db p) (payload p)"
  have fits: "0 \<le> write_offset db p" "nat (write_offset db p) + length (payload p) \<le> length b"
    using in_range_fits [of db T p b] Cons.prems by simp_all
  have len: "length ?b = nat T"
    using fits Cons.prems(2) by (simp add: length_overwrite)
  have "buf_after db ?b ps ! i = ?b ! i"
    using Cons.prems(1,3,4) len by (intro Cons.IH) simp_all
  also have "\<dots> = b ! i"
    using Cons.prems(4) [of p] Cons.prems(2,3) fits by (auto simp: nth_overwrite covers_def)
  finally show ?case unfolding buf_after_Cons .
qed

lemma apart_not_covers:
  assumes "apart db p q" "in_range db T p" "in_range db T q" "j < length (payload p)"
  shows "\<not> covers db q (nat (write_offset db p) + j)"
  using assms by (auto simp: apart_def covers_def in_range_def)

lemma buf_after_holds:
  assumes "\<And>p. p \<in> set ps \<Longrightarrow> in_range db T p" "length b = nat T"
    and "distinct (map (write_offset db) ps)"
    and "\<And>p q. p \<in> set ps \<Longrightarrow> q \<in> set ps \<Longrightarrow> write_offset db p \<noteq> write_offset db q \<Longrightarrow> apart db p q"
    and "p \<in> set ps" "j < length (payload p)"
  shows "buf_after db b ps ! (nat (write_offset db p) + j) = payload p ! j"
  using assms
proof (induction ps arbitrary: b)
  case Nil
  then show ?case by simp
next
  case (Cons q ps)
  let ?b = "overwrite b (write_offset db q) (payload q)"
  have fits: "0 \<le> write_offset db q" "nat (write_offset db q) + length (payload q) \<le> length b"
    using in_range_fits [of db T q b] Cons.prems by simp_all
  have len: "length ?b = nat T"
    using fits Cons.prems(2) by (simp add: length_overwrite)
  show ?case
  proof (cases "p \<in> set ps")
    case True
    have "buf_after db ?b ps ! (nat (write_offset db p) + j) = payload p ! j"
      using Cons.prems(1,3,4,6) len True by (intro Cons.IH) simp_all
    then show ?thesis unfolding buf_after_Cons .
  next
    case False
    then have pq: "p = q" using Cons.prems(5) by simp
    have rp: "in_range db T p" using Cons.prems(1) [of p] Cons.prems(5) by simp
    have i: "nat (write_offset db p) + j < nat T"
      using rp Cons.prems(6) by (auto simp: in_range_def)
    have out: "\<not> covers db r (nat (write_offset db p) + j)" if "r \<in> set ps" for r
    proof -
      have "write_offset db p \<noteq> write_offset db r"
        using Cons.prems(3) that pq by auto
      then have "apart db p r" using Cons.prems(4) [of p r] that pq by simp
      then show ?thesis
        using rp Cons.prems(1) [of r] that Cons.prems(6) by (intro apart_not_covers [of db p r T]) simp_all
    qed
    have "buf_after db ?b ps ! (nat (write_offset db p) + j) = ?b ! (nat (write_offset db p) + j)"
      using Cons.prems(1) len i out by (intro buf_after_outside [of ps db T]) simp_all
    also have "\<dots> = payload p ! j"
      using fits Cons.prems(2,6) i pq by (simp add: nth_overwrite)
    finally show ?thesis unfolding buf_after_Cons .
  qed
qed

lemma concat_from_nth:
  assumes "tiles db lo qs hi" "0 \<le> lo" "length B = nat hi"
    and "\<And>q j. q \<in> set qs \<Longrightarrow> j < length (payload q) \<Longrightarrow> B ! (nat (write_offset db q) + j) = payload q ! j"
  shows "drop (nat lo) B = concat (map payload qs)"
  using assms
proof (induction qs arbitrary: lo)
  case Nil
  then show ?case by simp
next
  case (Cons q qs)
  let ?l = "length (payload q)"
  have off: "write_offset db q = lo" and rest: "tiles db (lo + int ?l) qs hi"
    using Cons.prems(1) by simp_all
  have le: "lo + int ?l \<le> hi" using tiles_le [OF rest] .
  have n: "nat (lo + int ?l) = nat lo + ?l" using Cons.prems(2) by (simp add: nat_add_distrib)
  have fit: "nat lo + ?l \<le> length B" using le Cons.prems(2,3) by simp
  have tl: "drop (nat (lo + int ?l)) B = concat (map payload qs)"
    using rest Cons.prems(2,3,4) by (intro Cons.IH) simp_all
  have hd: "take ?l (drop (nat lo) B) = payload q"
  proof (rule nth_equalityI)
    show "length (take ?l (drop (nat lo) B)) = length (payload q)" using fit by simp
  next
    fix j assume "j < length (take ?l (drop (nat lo) B))"
    then have j: "j < ?l" by simp
    then have "take ?l (drop (nat lo) B) ! j = B ! (nat lo + j)" using fit by simp
    also have "\<dots> = payload q ! j" using Cons.prems(4) [of q j] j off by simp
    finally show "take ?l (drop (nat lo) B) ! j = payload q ! j" .
  qed
  have "drop (nat lo) B = take ?l (drop (nat lo) B) @ drop ?l (drop (nat lo) B)"
    by (rule append_take_drop_id [symmetric])
  also have "drop ?l (drop (nat lo) B) = drop (nat (lo + int ?l)) B"
    by (simp add: n add.commute)
  finally show ?case using hd tl by simp
qed

lemma received_all: "received ps (length ps) = int (sum_list (map (length \<circ> payload) ps))"
  by (simp add: received_def length_concat comp_def)

lemma received_perm:
  assumes "mset qs = mset ps"
  shows "received qs (length qs) = received ps (length ps)"
proof -
  have "mset (map (length \<circ> payload) qs) = mset (map (length \<circ> payload) ps)"
    using assms by simp
  then have "sum_list (map (length \<circ> payload) qs) = sum_list (map (length \<circ> payload) ps)"
    by (metis sum_mset_sum_list)
  then show ?thesis by (simp add: received_all)
qed

lemma distinct_offsets_perm:
  assumes "mset qs = mset ps" "distinct (map (write_offset db) qs)"
  shows "distinct (map (write_offset db) ps)"
proof -
  have "mset (map (write_offset db) qs) = mset (map (write_offset db) ps)"
    using assms(1) by simp
  then show ?thesis using assms(2) by (metis mset_eq_imp_distinct_iff)
qed

lemma first_packet:
  assumes "tr n = Some p" "wf_packet db T p" "0 \<le> T"
  shows "read_all db tr n init_state =
         read_all db tr n (init_state\<lparr>samples_total := T, samples_data := replicate (nat T) (CHR 0x00),
                          meta := py_slice 29 128 p\<rparr>)"
proof -
  let ?st = "init_state\<lparr>samples_total := T, samples_data := replicate (nat T) (CHR 0x00),
                          meta := py_slice 29 128 p\<rparr>"
  have a: "readPacket db (tr n) init_state = store_packet p (write_offset db p) ?st"
    unfolding assms(1) using assms(2) _ assms(3) by (rule readPacket_first) (simp add: init_state_def)
  have b: "readPacket db (tr n) ?st = store_packet p (write_offset db p) ?st"
    unfolding assms(1) using assms(2) by (rule readPacket_next) (use assms(3) in simp_all)
  show ?thesis
  proof (cases "store_packet p (write_offset db p) ?st")
    case (Inl e)
    then show ?thesis using a b by (simp add: read_all_raise)
  next
    case (Inr r)
    obtain d s where r: "r = (d, s)" by (cases r)
    show ?thesis
    proof (cases d)
      case True
      then show ?thesis using a b Inr r by (simp add: read_all_done)
    next
      case False
      then have "read_all db tr n init_state = read_all db tr (Suc n) s"
        using a Inr r by (intro read_all_continue) simp
      moreover have "read_all db tr n ?st = read_all db tr (Suc n) s"
        using b Inr r False by (intro read_all_continue) simp
      ultimately show ?thesis by simp
    qed
  qed
qed

text \<open>
  C3. The packets \<open>ps\<close> arrive in this order as the responses \<open>n, n + 1, \<dots>\<close>. Each is
  framed, declares the total \<open>T\<close> and carries the non-empty payload that it declares. Put in
  the order of their write offsets, the payloads lie end to end from 0 to \<open>T\<close>: they do
  not overlap and they cover the buffer. Then the loop returns after the last packet, the
  buffer is the concatenation of the payloads in offset order, the metadata is that of the
  first packet, and the observer has been called once after each packet, in order of
  arrival, with the number of bytes received so far and the total. The witness is the
  transfer of 6000 samples in three packets of 2000 at offsets 0, 2000 and 4000.
\<close>

theorem transfer_reassembled:
  assumes "ps \<noteq> []"
    and "\<forall>i<length ps. tr (n + i) = Some (ps ! i)"
    and "\<forall>p\<in>set ps. wf_packet db T p"
    and "tiles db 0 (sort_key (write_offset db) ps) T"
  shows "read_all db tr n init_state =
         Some (Inr \<lparr>samples_data = concat (map payload (sort_key (write_offset db) ps)),
                     samples_total = T, samples_got = T, meta = py_slice 29 128 (hd ps),
                     progress = map (\<lambda>k. (received ps (Suc k), T)) [0..<length ps]\<rparr>)"
proof -
  let ?qs = "sort_key (write_offset db) ps"
  let ?st = "init_state\<lparr>samples_total := T, samples_data := replicate (nat T) (CHR 0x00),
                          meta := py_slice 29 128 (hd ps)\<rparr>"
  have perm: "mset ?qs = mset ps" by simp
  have sets: "set ?qs = set ps" by simp
  have T0: "0 \<le> T" using tiles_le [OF assms(4)] .
  have wf: "wf_packet db T p" if "p \<in> set ps" for p using assms(3) that by blast
  have ne: "payload p \<noteq> []" if "p \<in> set ps" for p using wf [OF that] by (simp add: wf_packet_def)
  have rng: "in_range db T p" if "p \<in> set ps" for p
    using tiles_bounds [OF assms(4), of p] that sets by (simp add: in_range_def)
  have total: "received ps (length ps) = T"
    using tiles_hi [OF assms(4)] received_perm [OF perm] by simp
  have ap: "distinct (map (write_offset db) ?qs) \<and>
         (\<forall>p\<in>set ?qs. \<forall>q\<in>set ?qs. write_offset db p \<noteq> write_offset db q \<longrightarrow> apart db p q)"
    using assms(4) by (rule tiles_apart) (use ne sets in simp)
  then have dist: "distinct (map (write_offset db) ps)"
    using distinct_offsets_perm [OF perm] by blast
  have apart: "apart db p q" if "p \<in> set ps" "q \<in> set ps" "write_offset db p \<noteq> write_offset db q" for p q
    using ap that sets by blast
  have hd: "tr n = Some (hd ps)" "hd ps \<in> set ps"
    using assms(1,2) by (simp_all add: hd_conv_nth) (metis add.right_neutral length_greater_0_conv)
  have "read_all db tr n init_state = read_all db tr n ?st"
    using hd(1) wf [OF hd(2)] T0 by (rule first_packet)
  also have "\<dots> = Some (Inr (run_state db ?st ps))"
  proof (rule read_all_run [where T = T])
    show "tr (n + i) = Some (ps ! i)" if "i < length ps" for i using assms(2) that by blast
    show "wf_packet db T p \<and> in_range db T p" if "p \<in> set ps" for p using wf rng that by blast
    show "samples_total ?st = T" by simp
    show "0 \<le> T" by fact
    show "length (samples_data ?st) = nat T" by simp
    show "samples_got ?st + received ps (length ps) = T" using total by (simp add: init_state_def)
    show "ps \<noteq> []" by fact
  qed
  also have "run_state db ?st ps =
    \<lparr>samples_data = concat (map payload ?qs),
       samples_total = T, samples_got = T, meta = py_slice 29 128 (hd ps),
       progress = map (\<lambda>k. (received ps (Suc k), T)) [0..<length ps]\<rparr>"
  proof -
    let ?B = "buf_after db (replicate (nat T) (CHR 0x00)) ps"
    have len: "length ?B = nat T"
      by (rule length_buf_after [where T = T]) (use rng in simp_all)
    have "?B ! (nat (write_offset db q) + j) = payload q ! j"
      if "q \<in> set ?qs" "j < length (payload q)" for q j
      by (rule buf_after_holds [where T = T]) (use rng dist apart that sets in simp_all)
    with assms(4) have "drop (nat 0) ?B = concat (map payload ?qs)"
      by (intro concat_from_nth [where hi = T]) (use len in simp_all)
    then have data: "samples_data (run_state db ?st ps) = concat (map payload ?qs)"
      by (simp add: run_state_data)
    have got: "samples_got (run_state db ?st ps) = T"
      using total by (simp add: run_state_got init_state_def)
    have prog: "progress (run_state db ?st ps) = map (\<lambda>k. (received ps (Suc k), T)) [0..<length ps]"
      by (simp add: run_state_progress init_state_def)
    show ?thesis
      by (rule rstate.equality) (simp_all add: data got prog run_state_total run_state_meta)
  qed
  finally show ?thesis .
qed

lemma sorted_abc: "sort_key (write_offset db) [pkt_a, pkt_b, pkt_c] = [pkt_a, pkt_b, pkt_c]"
  by (simp add: off_abc)

lemma tiles_abc: "tiles db 0 (sort_key (write_offset db) [pkt_a, pkt_b, pkt_c]) 6000"
  by (simp add: sorted_abc off_abc payload_abc)

theorem transfer_reassembled_witness:
  "wf_packet ucd 6000 pkt_a \<and> wf_packet ucd 6000 pkt_b \<and> wf_packet ucd 6000 pkt_c
   \<and> tiles ucd 0 (sort_key (write_offset ucd) [pkt_a, pkt_b, pkt_c]) 6000
   \<and> read_all ucd (script [pkt_a, pkt_b, pkt_c]) 0 init_state =
       Some (Inr \<lparr>samples_data = replicate 2000 (CHR ''a'') @ replicate 2000 (CHR ''b'')
                                   @ replicate 2000 (CHR ''c''),
                   samples_total = 6000, samples_got = 6000, meta = meta_ex,
                   progress = [(2000, 6000), (4000, 6000), (6000, 6000)]\<rparr>)"
proof -
  let ?ps = "[pkt_a, pkt_b, pkt_c]"
  have 1: "?ps \<noteq> []" by simp
  have 2: "\<forall>i<length ?ps. script ?ps (0 + i) = Some (?ps ! i)"
    by (simp add: script_def)
  have 3: "\<forall>p\<in>set ?ps. wf_packet ucd 6000 p"
    by (simp add: wf_abc)
  have up: "[0..<length ?ps] = [0, Suc 0, Suc (Suc 0)]"
    by (simp add: upt_rec)
  have "read_all ucd (script ?ps) 0 init_state =
      Some (Inr \<lparr>samples_data = concat (map payload (sort_key (write_offset ucd) ?ps)),
                     samples_total = 6000, samples_got = 6000, meta = py_slice 29 128 (hd ?ps),
                     progress = map (\<lambda>k. (received ?ps (Suc k), 6000)) [0..<length ?ps]\<rparr>)"
    using transfer_reassembled [of ?ps "script ?ps" 0 ucd 6000, OF 1 2 3 tiles_abc] .
  then show ?thesis
    unfolding up sorted_abc
    by (simp add: wf_abc off_abc payload_abc meta_a received_def)
qed

lemmas float_eval = py_float_def strip_by_def is_space_def byte_val_def
  split_sign_def is_digit_def digits_val_def digit_val_def special_def to_lower_def decimal_def pow10_def

section \<open>Claims about metadata decoding\<close>

lemma py_slice_nth:
  assumes "j \<le> length m"
  shows "py_slice i j m = map ((!) m) [i..<j]"
proof (rule nth_equalityI)
  show "length (py_slice i j m) = length (map ((!) m) [i..<j])"
    using assms by (simp add: py_slice_def)
next
  fix k assume "k < length (py_slice i j m)"
  then show "py_slice i j m ! k = map ((!) m) [i..<j] ! k"
    using assms by (simp add: py_slice_def)
qed

lemma py_int_ValueError: "py_int s = Inl e \<Longrightarrow> e = ValueError"
  unfolding py_int_def Let_def by (simp split: if_splits prod.splits)

lemma py_float_ValueError: "py_float s = Inl e \<Longrightarrow> e = ValueError"
  unfolding py_float_def Let_def by (simp split: if_splits prod.splits option.splits)

lemma decode_sr_ascii: "ascii f \<Longrightarrow> decode_sr db f = py_float f"
  by (simp add: decode_sr_def float_of_text_ascii split: sum.splits)

lemma decode_sr_ValueError: "decode_sr db f = Inl e \<Longrightarrow> e = ValueError"
  by (auto simp: decode_sr_def split: sum.splits dest: py_float_ValueError)

lemma decode_tt_default: "isl (float_of_stripped db f) \<Longrightarrow> decode_tt db f = Fin 0"
  by (auto simp: decode_tt_def split: sum.splits)

lemma sum_ints_ValueError:
  "(\<And>x e. x \<in> set xs \<Longrightarrow> x = Inl e \<Longrightarrow> e = ValueError) \<Longrightarrow> sum_ints xs = Inl e \<Longrightarrow> e = ValueError"
proof (induction xs rule: sum_ints.induct)
  case 1
  then show ?case by simp
next
  case (2 e' xs)
  then show ?case by simp
next
  case (3 x xs)
  then show ?case by (auto split: sum.splits)
qed

lemma py_int_0: "py_int ''0'' = Inr 0"
  by (simp add: py_int_def strip_by_def is_space_def byte_val_def split_sign_def is_digit_def
      digits_val_def digit_val_def)

lemma py_int_1: "py_int ''1'' = Inr 1"
  by (simp add: py_int_def strip_by_def is_space_def byte_val_def split_sign_def is_digit_def
      digits_val_def digit_val_def)

lemma py_int_2: "py_int ''2'' = Inr 2"
  by (simp add: py_int_def strip_by_def is_space_def byte_val_def split_sign_def is_digit_def
      digits_val_def digit_val_def)

lemma py_int_x01: "py_int [CHR 0x01] = Inl ValueError"
  by (simp add: py_int_def strip_by_def is_space_def byte_val_def split_sign_def is_digit_def)

lemma flag_value:
  "c = CHR ''0'' \<or> c = CHR ''1'' \<Longrightarrow> py_int [c] = Inr (if c = CHR ''1'' then 1 else 0)"
  using py_int_0 py_int_1 by auto

lemma sr_1e8: "py_float ''1.000E+08'' = Inr (Fin 100000000)"
  by (simp add: float_eval to_double_Fin)

lemma sr_field_1e8: "decode_sr db ''1.000E+08'' = Inr (Fin 100000000)"
  by (simp add: decode_sr_ascii ascii_def byte_val_def sr_1e8)

lemma flags_sum:
  assumes "set [a, b, c, d] \<subseteq> {CHR ''0'', CHR ''1''}"
  shows "sum_ints [py_int [a], py_int [b], py_int [c], py_int [d]]
         = Inr (int (count_list [a, b, c, d] (CHR ''1'')))"
proof -
  have "py_int [x] = Inr (if x = CHR ''1'' then 1 else 0)" if "x \<in> set [a, b, c, d]" for x
    using assms that by (intro flag_value) auto
  then have "py_int [a] = Inr (if a = CHR ''1'' then 1 else 0)"
    "py_int [b] = Inr (if b = CHR ''1'' then 1 else 0)"
    "py_int [c] = Inr (if c = CHR ''1'' then 1 else 0)"
    "py_int [d] = Inr (if d = CHR ''1'' then 1 else 0)"
    by simp_all
  then show ?thesis by simp
qed

lemma unpack_meta_99:
  assumes "length m = 99"
  shows "unpack_meta m = Inr u \<Longrightarrow>
         c1e u = [m ! 46] \<and> c2e u = [m ! 47] \<and> c3e u = [m ! 48] \<and> c4e u = [m ! 49]
         \<and> sampling_rate u = py_slice 50 59 m \<and> trigger_time u = py_slice 74 83 m"
    and "\<exists>u. unpack_meta m = Inr u"
  using assms by (auto simp: unpack_meta_def py_slice_nth)

lemma flags_slice:
  assumes "length m = 99"
  shows "py_slice 46 50 m = [m ! 46, m ! 47, m ! 48, m ! 49]"
proof -
  have "[46..<50] = [46, 47, 48, 49::nat]" by (simp add: upt_rec)
  then show ?thesis using assms by (simp add: py_slice_nth)
qed

text \<open>The three steps of the decoder on a region of 99 bytes, by the positions of the fields.\<close>

lemma decode_meta_99:
  assumes "length m = 99"
  shows "decode_meta db m =
     (case sum_ints [py_int (py_slice 46 47 m), py_int (py_slice 47 48 m),
                     py_int (py_slice 48 49 m), py_int (py_slice 49 50 m)] of
        Inl e \<Rightarrow> Inl e
      | Inr n \<Rightarrow>
          (case decode_sr db (py_slice 50 59 m) of
             Inl e \<Rightarrow> Inl e
           | Inr x \<Rightarrow> Inr \<lparr>channel_count = n, sr = x, tt = decode_tt db (py_slice 74 83 m)\<rparr>))"
  using assms by (simp add: decode_meta_def unpack_meta_def split: sum.splits)

lemma flag_slices:
  assumes "length m = 99"
  shows "py_slice 46 47 m = [m ! 46]" "py_slice 47 48 m = [m ! 47]"
    "py_slice 48 49 m = [m ! 48]" "py_slice 49 50 m = [m ! 49]"
  using assms by (simp_all add: py_slice_nth)

lemma decode_meta_flags:
  assumes "length m = 99"
    and "decode_sr db (py_slice 50 59 m) = Inr x"
    and "set (py_slice 46 50 m) \<subseteq> {CHR ''0'', CHR ''1''}"
  shows "decode_meta db m =
         Inr \<lparr>channel_count = int (count_list (py_slice 46 50 m) (CHR ''1'')), sr = x,
               tt = decode_tt db (py_slice 74 83 m)\<rparr>"
proof -
  have "sum_ints [py_int [m ! 46], py_int [m ! 47], py_int [m ! 48], py_int [m ! 49]]
        = Inr (int (count_list (py_slice 46 50 m) (CHR ''1'')))"
    using flags_sum [of "m ! 46" "m ! 47" "m ! 48" "m ! 49"] assms(3)
    unfolding flags_slice [OF assms(1)] by simp
  then show ?thesis
    using assms(2) by (simp add: decode_meta_99 [OF assms(1)] flag_slices [OF assms(1)])
qed

text \<open>
  C9, as the code has it. The region has 99 bytes, its sampling-rate field (bytes 50 to
  58) holds the text \<open>1.000E+08\<close>, each of the four channel-enabled bytes (46 to 49) is
  the character \<open>0\<close> or \<open>1\<close>, and exactly two of them are \<open>1\<close>. Then decoding succeeds
  with sampling rate \<open>10\<^sup>8\<close> and channel count 2. The count is the sum of the decimal
  values of the four bytes (line 117), which for flags written \<open>0\<close> and \<open>1\<close> is the
  number of flags set.
\<close>

theorem decode_meta_exact:
  assumes "length m = 99"
    and "py_slice 50 59 m = ''1.000E+08''"
    and "set (py_slice 46 50 m) \<subseteq> {CHR ''0'', CHR ''1''}"
    and "count_list (py_slice 46 50 m) (CHR ''1'') = 2"
  shows "decode_meta db m =
         Inr \<lparr>channel_count = 2, sr = Fin 100000000, tt = decode_tt db (py_slice 74 83 m)\<rparr>"
proof -
  have "decode_sr db (py_slice 50 59 m) = Inr (Fin 100000000)"
    using assms(2) by (simp add: sr_field_1e8)
  from decode_meta_flags [OF assms(1) this assms(3)] assms(4) show ?thesis by simp
qed

lemma length_meta_bad: "length meta_bad_tt = 99" "length meta_bad_sr = 99"
  by (simp_all add: meta_bad_tt_def meta_bad_sr_def)

lemma meta_ex_fields:
  "py_slice 46 50 meta_ex = ''1100''" "py_slice 50 59 meta_ex = ''1.000E+08''"
  "py_slice 74 83 meta_ex = ''1.000E-03''"
  by (simp_all add: meta_ex_def py_slice_def)

lemma tt_1ms: "decode_tt db ''1.000E-03'' = Fin (1 / 1000)"
proof -
  have "float_of_stripped db ''1.000E-03'' = py_float ''1.000E-03''"
    by (simp add: float_of_stripped_ascii ascii_def str_space_def strip_by_def byte_val_def)
  also have "\<dots> = Inr (Fin (1 / 1000))"
    by (simp add: float_eval to_double_Fin)
  finally show ?thesis by (simp add: decode_tt_def)
qed

theorem decode_meta_exact_witness:
  "length meta_ex = 99 \<and> py_slice 50 59 meta_ex = ''1.000E+08''
   \<and> set (py_slice 46 50 meta_ex) \<subseteq> {CHR ''0'', CHR ''1''}
   \<and> count_list (py_slice 46 50 meta_ex) (CHR ''1'') = 2
   \<and> decode_meta ucd meta_ex = Inr \<lparr>channel_count = 2, sr = Fin 100000000, tt = Fin (1 / 1000)\<rparr>"
proof -
  have 3: "set (py_slice 46 50 meta_ex) \<subseteq> {CHR ''0'', CHR ''1''}"
    and 4: "count_list (py_slice 46 50 meta_ex) (CHR ''1'') = 2"
    by (simp_all add: meta_ex_fields)
  from decode_meta_exact [OF length_meta_ex meta_ex_fields(2) 3 4, of ucd]
  show ?thesis using 3 4 by (simp add: length_meta_ex meta_ex_fields tt_1ms)
qed

text \<open>
  C9 as stated fails, because the code does not count the flags that are set: it reads
  each flag byte as a decimal number and adds the four numbers up. In the first region
  the flag bytes are \<open>1\<close>, \<open>2\<close>, \<open>0\<close>, \<open>0\<close>: two of the four are \<open>0\<close> and two are not,
  and the count is 3. In the second the flag bytes are the raw values 1, 1, 0, 0: two of
  the four are the zero byte and two are not, and decoding raises \<open>ValueError\<close>. Both
  regions hold the sampling rate \<open>1.000E+08\<close>.
\<close>

theorem flag_count_counterexample:
  "length meta_12 = 99 \<and> py_slice 50 59 meta_12 = ''1.000E+08''
   \<and> py_slice 46 50 meta_12 = ''1200''
   \<and> count_list (py_slice 46 50 meta_12) (CHR ''0'') = 2
   \<and> decode_meta ucd meta_12 = Inr \<lparr>channel_count = 3, sr = Fin 100000000, tt = Fin (1 / 1000)\<rparr>
   \<and> length meta_raw = 99 \<and> py_slice 50 59 meta_raw = ''1.000E+08''
   \<and> py_slice 46 50 meta_raw = [CHR 0x01, CHR 0x01, CHR 0x00, CHR 0x00]
   \<and> count_list (py_slice 46 50 meta_raw) (CHR 0x00) = 2
   \<and> decode_meta ucd meta_raw = Inl ValueError"
proof -
  have l: "length meta_12 = 99" "length meta_raw = 99"
    by (simp_all add: meta_12_def meta_raw_def)
  have f12: "py_slice 46 47 meta_12 = ''1''" "py_slice 47 48 meta_12 = ''2''"
    "py_slice 48 49 meta_12 = ''0''" "py_slice 49 50 meta_12 = ''0''"
    "py_slice 50 59 meta_12 = ''1.000E+08''" "py_slice 74 83 meta_12 = ''1.000E-03''"
    "py_slice 46 50 meta_12 = ''1200''"
    by (simp_all add: meta_12_def py_slice_def)
  have fraw: "py_slice 46 47 meta_raw = [CHR 0x01]" "py_slice 50 59 meta_raw = ''1.000E+08''"
    "py_slice 46 50 meta_raw = [CHR 0x01, CHR 0x01, CHR 0x00, CHR 0x00]"
    by (simp_all add: meta_raw_def py_slice_def)
  have 1: "decode_meta ucd meta_12 = Inr \<lparr>channel_count = 3, sr = Fin 100000000, tt = Fin (1 / 1000)\<rparr>"
    by (simp add: decode_meta_99 [OF l(1)] f12 py_int_0 py_int_1 py_int_2 sr_field_1e8 tt_1ms)
  have 2: "decode_meta ucd meta_raw = Inl ValueError"
    by (simp add: decode_meta_99 [OF l(2)] fraw py_int_x01)
  show ?thesis using l 1 2 by (simp add: f12 fraw)
qed

lemma decode_meta_sr_fails:
  assumes "length m = 99" "isl (decode_sr db (py_slice 50 59 m))"
  shows "decode_meta db m = Inl ValueError"
proof -
  let ?flags = "sum_ints [py_int (py_slice 46 47 m), py_int (py_slice 47 48 m),
                          py_int (py_slice 48 49 m), py_int (py_slice 49 50 m)]"
  obtain e where "decode_sr db (py_slice 50 59 m) = Inl e"
    using assms(2) by (cases "decode_sr db (py_slice 50 59 m)") auto
  then have sr: "decode_sr db (py_slice 50 59 m) = Inl ValueError"
    using decode_sr_ValueError by blast
  show ?thesis
  proof (cases ?flags)
    case (Inl e')
    have "e' = ValueError"
      using _ Inl by (rule sum_ints_ValueError) (auto dest: py_int_ValueError [OF sym])
    then show ?thesis using Inl by (simp add: decode_meta_99 [OF assms(1)])
  next
    case (Inr n)
    then show ?thesis using sr by (simp add: decode_meta_99 [OF assms(1)])
  qed
qed

lemma decode_meta_tt_default:
  assumes "length m = 99"
    and "sum_ints [py_int (py_slice 46 47 m), py_int (py_slice 47 48 m),
                   py_int (py_slice 48 49 m), py_int (py_slice 49 50 m)] = Inr n"
    and "decode_sr db (py_slice 50 59 m) = Inr x"
    and "isl (float_of_stripped db (py_slice 74 83 m))"
  shows "decode_meta db m = Inr \<lparr>channel_count = n, sr = x, tt = Fin 0\<rparr>"
  using assms(2,3,4) by (simp add: decode_meta_99 [OF assms(1)] decode_tt_default)

text \<open>
  C7, as the code has it. The sampling-rate field (bytes 50 to 58) of a 99-byte region
  is read as a number from its decoded text and, if that fails, from its bytes; when
  both fail, decoding raises \<open>ValueError\<close>, which \<open>get_waveform\<close> turns into
  \<open>(None, None)\<close>. The trigger-time field (bytes 74 to 82) is read from its decoded,
  stripped text; when that fails, and the channel flags and the sampling rate have been
  read, nothing is raised: decoding succeeds, with the trigger time 0.0.
\<close>

theorem unparseable_fields:
  "(length m = 99 \<and> isl (decode_sr db (py_slice 50 59 m)) \<longrightarrow> decode_meta db m = Inl ValueError)
   \<and> (length m' = 99
        \<and> sum_ints [py_int (py_slice 46 47 m'), py_int (py_slice 47 48 m'),
                     py_int (py_slice 48 49 m'), py_int (py_slice 49 50 m')] = Inr n
        \<and> decode_sr db (py_slice 50 59 m') = Inr x
        \<and> isl (float_of_stripped db (py_slice 74 83 m'))
      \<longrightarrow> decode_meta db m' = Inr \<lparr>channel_count = n, sr = x, tt = Fin 0\<rparr>)"
  using decode_meta_sr_fails decode_meta_tt_default by blast

lemma bad_fields:
  "decode_sr db (py_slice 50 59 meta_bad_sr) = Inl ValueError"
  "float_of_stripped db (py_slice 74 83 meta_bad_tt) = Inl ValueError"
proof -
  have "py_slice 50 59 meta_bad_sr = ''---------''"
    by (simp add: meta_bad_sr_def py_slice_def)
  then show "decode_sr db (py_slice 50 59 meta_bad_sr) = Inl ValueError"
    by (simp add: decode_sr_ascii ascii_def byte_val_def float_eval)
  have "py_slice 74 83 meta_bad_tt = ''---------''"
    by (simp add: meta_bad_tt_def py_slice_def)
  then show "float_of_stripped db (py_slice 74 83 meta_bad_tt) = Inl ValueError"
    by (simp add: float_of_stripped_ascii ascii_def str_space_def strip_by_def byte_val_def)
       (simp add: float_eval)
qed

lemma bad_tt_fields:
  "py_slice 46 47 meta_bad_tt = ''1''" "py_slice 47 48 meta_bad_tt = ''1''"
  "py_slice 48 49 meta_bad_tt = ''0''" "py_slice 49 50 meta_bad_tt = ''0''"
  "py_slice 50 59 meta_bad_tt = ''1.000E+08''" "py_slice 74 83 meta_bad_tt = ''---------''"
  by (simp_all add: meta_bad_tt_def py_slice_def)

theorem unparseable_fields_witness:
  "length meta_bad_sr = 99 \<and> isl (decode_sr ucd (py_slice 50 59 meta_bad_sr))
   \<and> decode_meta ucd meta_bad_sr = Inl ValueError
   \<and> length meta_bad_tt = 99
   \<and> sum_ints [py_int (py_slice 46 47 meta_bad_tt), py_int (py_slice 47 48 meta_bad_tt),
                py_int (py_slice 48 49 meta_bad_tt), py_int (py_slice 49 50 meta_bad_tt)] = Inr 2
   \<and> decode_sr ucd (py_slice 50 59 meta_bad_tt) = Inr (Fin 100000000)
   \<and> isl (float_of_stripped ucd (py_slice 74 83 meta_bad_tt))
   \<and> decode_meta ucd meta_bad_tt = Inr \<lparr>channel_count = 2, sr = Fin 100000000, tt = Fin 0\<rparr>"
proof -
  have 1: "isl (decode_sr ucd (py_slice 50 59 meta_bad_sr))"
    and 2: "isl (float_of_stripped ucd (py_slice 74 83 meta_bad_tt))"
    by (simp_all add: bad_fields)
  have 3: "sum_ints [py_int (py_slice 46 47 meta_bad_tt), py_int (py_slice 47 48 meta_bad_tt),
                py_int (py_slice 48 49 meta_bad_tt), py_int (py_slice 49 50 meta_bad_tt)] = Inr 2"
    by (simp add: bad_tt_fields(1-4) py_int_0 py_int_1)
  have 4: "decode_sr ucd (py_slice 50 59 meta_bad_tt) = Inr (Fin 100000000)"
    by (simp add: bad_tt_fields(5) sr_field_1e8)
  from unparseable_fields [of meta_bad_sr ucd meta_bad_tt 2 "Fin 100000000"]
  show ?thesis using 1 2 3 4 by (simp add: length_meta_bad)
qed

text \<open>
  C7 as stated fails: the trigger-time field of this region is \<open>---------\<close>, which is
  not a number, and decoding succeeds with the trigger time 0.0 in its place.
\<close>

theorem unparseable_trigger_time_counterexample:
  "length meta_bad_tt = 99 \<and> py_slice 74 83 meta_bad_tt = ''---------''
   \<and> float_of_stripped ucd ''---------'' = Inl ValueError
   \<and> decode_meta ucd meta_bad_tt = Inr \<lparr>channel_count = 2, sr = Fin 100000000, tt = Fin 0\<rparr>"
proof -
  have "float_of_stripped ucd ''---------'' = Inl ValueError"
    using bad_fields(2) [of ucd] by (simp add: bad_tt_fields)
  moreover from this
  have "decode_meta ucd meta_bad_tt = Inr \<lparr>channel_count = 2, sr = Fin 100000000, tt = Fin 0\<rparr>"
    by (simp add: decode_meta_99 length_meta_bad bad_tt_fields py_int_0 py_int_1 sr_field_1e8
        decode_tt_def)
  ultimately show ?thesis by (simp add: length_meta_bad bad_tt_fields)
qed

text \<open>
  The readers on text that is not ASCII, and on literals out of the range of a double.
  The sampling-rate field \<open>1.0E+0\<close>, ARABIC-INDIC DIGIT EIGHT, blank reads as \<open>10\<^sup>8\<close>;
  the trigger-time field \<open>1.0E-3\<close>, NO-BREAK SPACE, blank reads as 0.001; a byte that is
  not UTF-8 makes the text unreadable, and the sampling rate falls back on the bytes;
  \<open>1e400\<close> is an infinity and \<open>1.00E-400\<close> is zero.
\<close>

lemma arabic_digit_rate: "decode_sr ucd sr_arabic = Inr (Fin 100000000)"
proof -
  have "decode sr_arabic = Inr [49, 46, 48, 69, 43, 48, 1640, 32]"
    by (simp add: sr_arabic_def decode_def byte_val_def is_cont_def)
  moreover have "to_ascii ucd [49, 46, 48, 69, 43, 48, 1640, 32] = ''1.0E+08 ''"
    by code_simp
  moreover have "py_float ''1.0E+08 '' = Inr (Fin 100000000)"
    by (simp add: float_eval to_double_Fin)
  ultimately show ?thesis by (simp add: decode_sr_def float_of_text_def)
qed

lemma no_break_space_time: "decode_tt ucd tt_nbsp = Fin (1 / 1000)"
proof -
  have "decode tt_nbsp = Inr [49, 46, 48, 69, 45, 51, 160, 32]"
    by (simp add: tt_nbsp_def decode_def byte_val_def is_cont_def)
  moreover have "strip_by (str_space ucd) [49, 46, 48, 69, 45, 51, 160, 32] = [49, 46, 48, 69, 45, 51]"
    by (simp add: strip_by_def str_space_def ucd_def)
  moreover have "to_ascii ucd [49, 46, 48, 69, 45, 51] = ''1.0E-3''"
    by code_simp
  moreover have "py_float ''1.0E-3'' = Inr (Fin (1 / 1000))"
    by (simp add: float_eval to_double_Fin)
  ultimately show ?thesis by (simp add: decode_tt_def float_of_stripped_def)
qed

lemma not_utf8: "decode [CHR 0xFF] = Inl UnicodeDecodeError"
  by (simp add: decode_def byte_val_def)

lemma out_of_range:
  "py_float ''1e400'' = Inr PInf" "py_float ''1.00E-400'' = Inr (Fin 0)"
  by (simp_all add: float_eval to_double_def)

section \<open>Claims about calibration\<close>

lemma collect_Inr: "collect (map (\<lambda>x. Inr (f x)) xs) = Inr (map f xs)"
  by (induction xs) simp_all

lemma tiempo_finite:
  assumes "r \<noteq> 0"
  shows "tiempo n (Fin r) (Fin t) = Inr (map (\<lambda>i. Fin (real i / r - t)) [0..<n])"
proof -
  have "(\<lambda>i. case int_div_float (int i) (Fin r) of Inl e \<Rightarrow> Inl e | Inr q \<Rightarrow> Inr (fsub q (Fin t)))
        = (\<lambda>i. Inr (Fin (real i / r - t)))"
    using assms by (auto simp: fun_eq_iff)
  then show ?thesis by (simp add: tiempo_def collect_Inr)
qed

lemma tiempo_zero_rate: "0 < n \<Longrightarrow> tiempo n (Fin 0) t = Inl ZeroDivisionError"
proof -
  assume "0 < n"
  then have "[0..<n] = 0 # [Suc 0..<n]" by (simp add: upt_conv_Cons)
  then show ?thesis by (simp add: tiempo_def)
qed

text \<open>
  C5. With a finite scale and offset, the voltage of every raw sample \<open>v\<close> is
  \<open>v / 25 \<times> scale - offset\<close>; floats are taken as real numbers. The three cases of the
  specification follow.
\<close>

theorem voltage_formula:
  "voltaje samples (Fin scale) (Fin offset) = map (\<lambda>v. Fin (real_of_int v / 25 * scale - offset)) samples
   \<and> voltaje [25] (Fin 1) (Fin 0) = [Fin 1]
   \<and> voltaje [- 25] (Fin 1) (Fin 0) = [Fin (- 1)]
   \<and> voltaje [0] (Fin 2) (Fin (1 / 2)) = [Fin (- (1 / 2))]"
  by (simp add: voltaje_def)

text \<open>
  C6, as the code has it. For a sampling rate other than zero, the calibrated output is
  the pair of a time sequence and a voltage sequence, both as long as the sample set, and
  the time at index \<open>i\<close> is \<open>i / rate - trigger time\<close>; floats are taken as real numbers.
\<close>

theorem time_axis:
  assumes "r \<noteq> 0"
  shows "calibrate samples scale offset (Fin r) (Fin t) =
           Inr (map (\<lambda>i. Fin (real i / r - t)) [0..<length samples], voltaje samples scale offset)
         \<and> length (map (\<lambda>i. Fin (real i / r - t)) [0..<length samples]) = length samples
         \<and> length (voltaje samples scale offset) = length samples"
  using assms by (simp add: calibrate_def tiempo_finite voltaje_def)

theorem time_axis_witness:
  "(1000000 :: real) \<noteq> 0
   \<and> (\<exists>tm v. calibrate (replicate 1001 0) (Fin 1) (Fin 0) (Fin 1000000) (Fin (1 / 1000)) = Inr (tm, v)
        \<and> length tm = 1001 \<and> length v = 1001
        \<and> tm ! 0 = Fin (- (1 / 1000)) \<and> tm ! 1000 = Fin 0)"
proof -
  have nz: "(1000000 :: real) \<noteq> 0" by simp
  from time_axis [OF nz, of "replicate 1001 0" "Fin 1" "Fin 0" "1 / 1000"]
  show ?thesis by simp
qed

text \<open>
  C6 as stated fails for the sampling rate zero, which the text \<open>0.000E+00\<close> of a
  metadata region decodes to: line 148 divides by it, and no output is produced.
\<close>

theorem time_axis_counterexample:
  "py_float ''0.000E+00'' = Inr (Fin 0)
   \<and> calibrate [0] (Fin 1) (Fin 0) (Fin 0) (Fin 0) = Inl ZeroDivisionError"
  by (simp add: calibrate_def tiempo_zero_rate) (simp add: float_eval to_double_0)

section \<open>Claims about channel extraction\<close>

lemma slice_int_block:
  assumes "0 \<le> s" "s + 2000 \<le> int (length buf)"
  shows "slice_int s (s + 2000) buf = take 2000 (drop (nat s) buf)"
  using assms by (simp add: slice_int_def Let_def min_def)

lemma unpack_block_whole:
  assumes "0 \<le> s" "s + 2000 \<le> int (length buf)"
  shows "unpack_block (slice_int s (s + 2000) buf) = Inr (block_at buf (nat s))"
  using assms by (simp add: slice_int_block unpack_block_def block_at_def)

lemma extend_blocks_whole:
  assumes "\<And>s. s \<in> set starts \<Longrightarrow> 0 \<le> s \<and> s + 2000 \<le> int (length buf)"
  shows "extend_blocks buf starts = Inr (concat (map (\<lambda>s. block_at buf (nat s)) starts))"
  using assms
proof (induction starts)
  case Nil
  show ?case by simp
next
  case (Cons s starts)
  have "unpack_block (slice_int s (s + 2000) buf) = Inr (block_at buf (nat s))"
    using Cons.prems [of s] by (simp add: unpack_block_whole)
  moreover have "extend_blocks buf starts = Inr (concat (map (\<lambda>s. block_at buf (nat s)) starts))"
    using Cons.prems by (intro Cons.IH) simp
  ultimately show ?case by simp
qed

lemma div_lower:
  assumes "0 < (b::int)" "k \<le> a div b"
  shows "k * b \<le> a"
proof -
  have "k * b \<le> (a div b) * b" using assms by (simp add: mult_right_mono)
  moreover have "(a div b) * b \<le> a"
    using pos_mod_sign [OF assms(1), of a] div_mult_mod_eq [of a b] by linarith
  ultimately show ?thesis by linarith
qed

lemma start_below:
  assumes "0 < step" "j < nat ((len - s0 + step - 1) div step)"
  shows "s0 + int j * step < (len :: int)"
proof -
  have "int j < (len - s0 + step - 1) div step" using assms(2) by linarith
  then have "int j + 1 \<le> (len - s0 + step - 1) div step" by simp
  with assms(1) have "(int j + 1) * step \<le> len - s0 + step - 1"
    by (rule div_lower)
  then show ?thesis by (simp add: algebra_simps)
qed

lemma whole_block:
  assumes "0 \<le> s" "s < int len" "s mod 2000 = 0" "len mod 2000 = 0"
  shows "s + 2000 \<le> int len"
proof -
  obtain a where a: "s = 2000 * a" using assms(3) by (auto elim: dvdE simp: mod_eq_0_iff_dvd)
  obtain b where b: "len = 2000 * b" using assms(4) by (auto elim: dvdE simp: mod_eq_0_iff_dvd)
  have "a < int b" using assms(2) a b by simp
  then have "a + 1 \<le> int b" by simp
  then show ?thesis using a b by simp
qed

lemma py_range_up:
  "0 < step \<Longrightarrow> py_range start stop step =
     Inr (map (\<lambda>j. start + int j * step) [0..<nat ((stop - start + step - 1) div step)])"
  by (simp add: py_range_def)

lemma div_upper:
  assumes "0 < (b::int)" "k * b \<le> a"
  shows "k \<le> a div b"
proof -
  have "(k * b) div b \<le> a div b" using assms by (intro zdiv_mono1) simp_all
  then show ?thesis using assms(1) by simp
qed

lemma start_below_iff:
  assumes "0 < step"
  shows "j < nat ((len - s0 + step - 1) div step) \<longleftrightarrow> s0 + int j * step < (len :: int)"
proof
  assume "j < nat ((len - s0 + step - 1) div step)"
  with assms show "s0 + int j * step < len" by (rule start_below)
next
  assume "s0 + int j * step < len"
  then have "(int j + 1) * step \<le> len - s0 + step - 1" by (simp add: algebra_simps)
  with assms have "int j + 1 \<le> (len - s0 + step - 1) div step" by (rule div_upper)
  then show "j < nat ((len - s0 + step - 1) div step)" by linarith
qed

lemma rounds_iff:
  assumes "1 \<le> n" "1 \<le> k"
  shows "j < rounds len k n \<longleftrightarrow> nat (k - 1) * 2000 + j * (2000 * nat n) < len"
proof -
  have "0 < 2000 * n" using assms(1) by simp
  from start_below_iff [OF this, of j "int len" "(k - 1) * 2000"]
  have "j < rounds len k n \<longleftrightarrow> (k - 1) * 2000 + int j * (2000 * n) < int len"
    by (simp add: rounds_def)
  also have "(k - 1) * 2000 + int j * (2000 * n) = int (nat (k - 1) * 2000 + j * (2000 * nat n))"
    using assms by simp
  finally show ?thesis by (simp only: of_nat_less_iff)
qed

text \<open>
  C4, as the code has it. The buffer is made of whole blocks: its length is a multiple of
  2000. There are \<open>n \<ge> 1\<close> enabled channels and \<open>k\<close> is one of them. Then extraction
  returns, in order, the blocks of 2000 bytes that start at \<open>(k - 1) \<times> 2000\<close> and at
  every \<open>2000 \<times> n\<close> bytes from there while the start lies in the buffer, each byte read
  as a signed 8-bit sample: 2000 samples for each block, all between -128 and 127. The
  number \<open>rounds\<close> counts these blocks: block \<open>j\<close> is among them exactly when its start
  lies in the buffer.
\<close>

theorem channel_blocks:
  assumes "1 \<le> n" and "1 \<le> k" and "k \<le> n" and "length buf mod 2000 = 0"
  shows "extract_channel buf k n =
           Inr (concat (map (\<lambda>j. block_at buf (nat (k - 1) * 2000 + j * (2000 * nat n)))
                            [0..<rounds (length buf) k n]))
         \<and> (\<forall>j<rounds (length buf) k n.
                length (block_at buf (nat (k - 1) * 2000 + j * (2000 * nat n))) = 2000
                \<and> (\<forall>v\<in>set (block_at buf (nat (k - 1) * 2000 + j * (2000 * nat n))).
                      - 128 \<le> v \<and> v \<le> 127))
         \<and> (\<forall>j. (j < rounds (length buf) k n)
                  = (nat (k - 1) * 2000 + j * (2000 * nat n) < length buf))"
proof -
  let ?s0 = "(k - 1) * 2000" and ?step = "2000 * n" and ?L = "int (length buf)"
  let ?R = "rounds (length buf) k n"
  let ?start = "\<lambda>j. ?s0 + int j * ?step"
  have step: "0 < ?step" using assms(1) by simp
  have R: "?R = nat ((?L - ?s0 + ?step - 1) div ?step)" by (simp add: rounds_def)
  have good: "0 \<le> ?start j \<and> ?start j + 2000 \<le> ?L" if "j < ?R" for j
  proof -
    have lt: "?start j < ?L" using start_below [OF step, of j ?L ?s0] that R by simp
    have ge: "0 \<le> ?start j" using assms(1,2) by simp
    have "?start j = 2000 * ((k - 1) + int j * n)" by (simp add: algebra_simps)
    then have "?start j mod 2000 = 0" by simp
    with ge lt assms(4) show ?thesis by (intro conjI whole_block) simp_all
  qed
  have nat_start: "nat (?start j) = nat (k - 1) * 2000 + j * (2000 * nat n)" for j
  proof -
    have "?start j = int (nat (k - 1) * 2000 + j * (2000 * nat n))"
      using assms(1,2) by simp
    then show ?thesis by (metis nat_int)
  qed
  have "extract_channel buf k n = extend_blocks buf (map ?start [0..<?R])"
    using py_range_up [OF step, of ?s0 ?L] R by (simp add: extract_channel_def)
  also have "\<dots> = Inr (concat (map (\<lambda>s. block_at buf (nat s)) (map ?start [0..<?R])))"
    by (rule extend_blocks_whole) (use good in auto)
  also have "map (\<lambda>s. block_at buf (nat s)) (map ?start [0..<?R])
             = map (\<lambda>j. block_at buf (nat (k - 1) * 2000 + j * (2000 * nat n))) [0..<?R]"
    by (simp only: map_map comp_def nat_start)
  finally have main: "extract_channel buf k n =
           Inr (concat (map (\<lambda>j. block_at buf (nat (k - 1) * 2000 + j * (2000 * nat n))) [0..<?R]))" .
  have len: "length (block_at buf (nat (k - 1) * 2000 + j * (2000 * nat n))) = 2000" if "j < ?R" for j
  proof -
    have "nat (?start j) + 2000 \<le> length buf" using good [OF that] by linarith
    then show ?thesis unfolding nat_start by (simp add: block_at_def)
  qed
  have rng: "- 128 \<le> v \<and> v \<le> 127" if v: "v \<in> set (block_at buf s)" for v s
  proof -
    obtain c where "v = signed_byte c" using v unfolding block_at_def set_map by blast
    moreover have "- 128 \<le> sint w \<and> sint w \<le> 127" for w :: "8 word"
      using sint_ge [of w] sint_lt [of w] by simp
    ultimately show ?thesis by (simp add: signed_byte_def)
  qed
  show ?thesis
  proof (intro conjI allI impI ballI)
    show "extract_channel buf k n =
           Inr (concat (map (\<lambda>j. block_at buf (nat (k - 1) * 2000 + j * (2000 * nat n))) [0..<?R]))"
      by (rule main)
  next
    fix j assume "j < ?R"
    then show "length (block_at buf (nat (k - 1) * 2000 + j * (2000 * nat n))) = 2000" by (rule len)
  next
    fix j v assume "v \<in> set (block_at buf (nat (k - 1) * 2000 + j * (2000 * nat n)))"
    then show "- 128 \<le> v" "v \<le> 127" using rng by blast+
  next
    fix j show "(j < ?R) = (nat (k - 1) * 2000 + j * (2000 * nat n) < length buf)"
      using assms(1,2) by (rule rounds_iff)
  qed
qed

lemma signed_examples:
  "signed_byte (CHR ''a'') = 97" "signed_byte (CHR ''b'') = 98" "signed_byte (CHR ''c'') = 99"
  "signed_byte (CHR ''d'') = 100" "signed_byte (CHR 0xFF) = - 1"
  by (simp_all add: signed_byte_def byte_val_def)

theorem channel_blocks_witness:
  "length buf4 = 4000 \<and> length buf8 = 8000
   \<and> extract_channel buf4 1 2 = Inr (map signed_byte (take 2000 buf4))
   \<and> extract_channel buf4 2 2 = Inr (map signed_byte (drop 2000 buf4))
   \<and> extract_channel buf8 1 2 = Inr (map signed_byte (take 2000 buf8 @ take 2000 (drop 4000 buf8)))
   \<and> extract_channel buf4 2 2 = Inr (replicate 2000 (- 1))"
proof -
  have l: "length buf4 = 4000" "length buf8 = 8000" by (simp_all add: buf4_def buf8_def)
  have r: "rounds 4000 1 2 = 1" "rounds 4000 2 2 = 1" "rounds 8000 1 2 = 2"
    by (simp_all add: rounds_def)
  have up: "[0..<2] = [0, 1::nat]" by (simp add: upt_rec)
  have a: "extract_channel buf4 1 2 = Inr (block_at buf4 0)"
    using channel_blocks [of 2 1 buf4] by (simp add: l r)
  have b: "extract_channel buf4 2 2 = Inr (block_at buf4 2000)"
    using channel_blocks [of 2 2 buf4] by (simp add: l r)
  have c: "extract_channel buf8 1 2 = Inr (block_at buf8 0 @ block_at buf8 4000)"
    using channel_blocks [of 2 1 buf8] by (simp add: l r up)
  show ?thesis
    unfolding a b c
    by (simp add: l block_at_def) (simp add: buf4_def signed_examples)
qed

text \<open>
  C4 as stated fails for a buffer that ends in a part of a block: with one channel and
  1000 bytes received, the block that starts at 0 is short, \<open>struct.unpack\<close> raises and
  nothing is extracted.
\<close>

theorem channel_blocks_counterexample:
  "extract_channel (replicate 1000 (CHR ''a'')) 1 1 = Inl StructError"
proof -
  have "[0..<Suc 0] = [0]" by simp
  then show ?thesis
    by (simp add: extract_channel_def py_range_def slice_int_def unpack_block_def)
qed

section \<open>Claims about the failures of a fetch\<close>

lemma read_single:
  assumes "length l = 9" "length t = 9" "length p = 9" "length m = 99" "d \<noteq> []"
    and "int_of_bytes db l = Inr (int (length d))" "int_of_bytes db t = Inr (int (length d))"
    and "int_of_bytes db p = Inr 0"
  shows "read_all db (script [frame l t p m d]) 0 init_state =
         Some (Inr \<lparr>samples_data = d, samples_total = int (length d),
                     samples_got = int (length d), meta = m,
                     progress = [(int (length d), int (length d))]\<rparr>)"
proof -
  let ?f = "frame l t p m d" and ?T = "int (length d)"
  have off: "write_offset db ?f = 0"
    using assms by (simp add: frame_fields write_offset_def)
  have pl: "payload ?f = d" "py_slice 29 128 ?f = m"
    using assms by (simp_all add: frame_payload)
  have wf: "wf_packet db ?T ?f"
    unfolding wf_packet_def pl off using assms by (simp add: frame_fields)
  have "readPacket db (Some ?f) init_state =
        store_packet ?f (write_offset db ?f)
          (init_state\<lparr>samples_total := ?T, samples_data := replicate (nat ?T) (CHR 0x00),
             meta := py_slice 29 128 ?f\<rparr>)"
    by (rule readPacket_first [OF wf]) (simp_all add: init_state_def)
  also have "\<dots> = Inr (True, \<lparr>samples_data = d, samples_total = ?T, samples_got = ?T,
                              meta = m, progress = [(?T, ?T)]\<rparr>)"
    using assms(5)
    by (subst store_packet_ok) (simp_all add: off pl stored_def init_state_def overwrite_def)
  finally show ?thesis by (intro read_all_done) (simp add: script_def)
qed

lemma read_one:
  assumes "length m = 99"
  shows "read_all db (script [pkt_one m]) 0 init_state =
         Some (Inr \<lparr>samples_data = buf4, samples_total = 4000, samples_got = 4000, meta = m,
                     progress = [(4000, 4000)]\<rparr>)"
proof -
  have l: "length buf4 = 4000" "buf4 \<noteq> []" by (auto simp: buf4_def)
  show ?thesis
    unfolding pkt_one_def
    using read_single [of "''000004000''" "''000004000''" "''000000000''" m buf4] assms
    by (simp add: l hdr_4000 hdr_0)
qed

lemma decode_meta_ex:
  "decode_meta db meta_ex = Inr \<lparr>channel_count = 2, sr = Fin 100000000, tt = Fin (1 / 1000)\<rparr>"
proof -
  have "decode_meta db meta_ex =
      Inr \<lparr>channel_count = 2, sr = Fin 100000000, tt = decode_tt db (py_slice 74 83 meta_ex)\<rparr>"
    using decode_meta_flags [where m = meta_ex and x = "Fin 100000000"]
    by (simp add: length_meta_ex meta_ex_fields sr_field_1e8)
  then show ?thesis by (simp add: meta_ex_fields tt_1ms)
qed

lemma decode_meta_bad_sr: "decode_meta db meta_bad_sr = Inl ValueError"
  by (rule decode_meta_sr_fails) (simp_all add: length_meta_bad bad_fields)

lemma fetch_silent: "fetch db (instrument []) ch = Some (Inl TransportError)"
proof -
  have "read_all db (script []) 0 init_state = Some (Inl TransportError)"
    by (rule read_all_raise) (simp add: script_def readPacket_def)
  then show ?thesis by (simp add: fetch_def instrument_def)
qed

lemma fetch_bad_sr: "fetch db (instrument [pkt_one meta_bad_sr]) ch = Some (Inl ValueError)"
  by (simp add: fetch_def instrument_def read_one length_meta_bad after_read_def decode_meta_bad_sr)

lemma query_examples: "py_float ''0.0'' = Inr (Fin 0)" "py_float ''1.0'' = Inr (Fin 1)"
  by (simp_all add: float_eval to_double_0 to_double_Fin)

lemma instrument_replies:
  "responses (instrument ps) = script ps"
  "query_float db (offset_reply (instrument ps) ch) = Inr (Fin 0)"
  "query_float db (scale_reply (instrument ps) ch) = Inr (Fin 1)"
proof -
  have a: "to_ascii db (map byte_val ''0.0'') = ''0.0''" "to_ascii db (map byte_val ''1.0'') = ''1.0''"
    by (rule to_ascii_ascii, simp add: ascii_def byte_val_def)+
  show "responses (instrument ps) = script ps"
    by (simp add: instrument_def)
  show "query_float db (offset_reply (instrument ps) ch) = Inr (Fin 0)"
    by (simp only: instrument_def query_float_def transport.simps option.case a query_examples)
  show "query_float db (scale_reply (instrument ps) ch) = Inr (Fin 1)"
    by (simp only: instrument_def query_float_def transport.simps option.case a query_examples)
qed

lemma length_meta_ch1: "length meta_ch1 = 99"
  by (simp add: meta_ch1_def)

lemma read_ch1:
  "read_all db (script [pkt_ch1]) 0 init_state =
     Some (Inr \<lparr>samples_data = replicate 2000 (CHR ''a''), samples_total = 2000,
                 samples_got = 2000, meta = meta_ch1, progress = [(2000, 2000)]\<rparr>)"
  unfolding pkt_ch1_def
  using read_single [of "''000002000''" "''000002000''" "''000000000''" meta_ch1
      "replicate 2000 (CHR ''a'')"]
  by (simp add: length_meta_ch1 hdr_2000 hdr_0)

lemma decode_meta_ch1:
  "decode_meta db meta_ch1 = Inr \<lparr>channel_count = 1, sr = Fin 100000000, tt = Fin (1 / 1000)\<rparr>"
proof -
  have f: "py_slice 46 50 meta_ch1 = ''1000''" "py_slice 50 59 meta_ch1 = ''1.000E+08''"
    "py_slice 74 83 meta_ch1 = ''1.000E-03''"
    by (simp_all add: meta_ch1_def py_slice_def)
  show ?thesis
    using decode_meta_flags [where m = meta_ch1 and x = "Fin 100000000"]
    by (simp add: length_meta_ch1 f sr_field_1e8 tt_1ms)
qed

text \<open>The enabled channel of this acquisition is fetched whole.\<close>

lemma fetch_enabled_channel:
  "get_waveform db (instrument [pkt_ch1]) 1 =
     Some (Arrays (map (\<lambda>i. Fin (real i / 100000000 - 1 / 1000)) [0..<2000])
                  (replicate 2000 (Fin (97 / 25))))"
proof -
  have "[0..<Suc 0] = [0]" by simp
  then have "extract_channel (replicate 2000 (CHR ''a'')) 1 1 = Inr (replicate 2000 97)"
    by (simp add: extract_channel_def py_range_def slice_int_def unpack_block_def signed_examples)
  then show ?thesis
    by (simp add: get_waveform_def fetch_def instrument_replies read_ch1 after_read_def
        decode_meta_ch1 calibrate_def tiempo_finite voltaje_def)
qed

text \<open>The other channel, which is not enabled, is fetched as two empty arrays.\<close>

lemma fetch_disabled_channel: "fetch db (instrument [pkt_ch1]) 2 = Some (Inr ([], []))"
proof -
  have "extract_channel (replicate 2000 (CHR ''a'')) 2 1 = Inr []"
    by (simp add: extract_channel_def py_range_def)
  then show ?thesis
    by (simp add: fetch_def instrument_replies read_ch1 after_read_def decode_meta_ch1
        calibrate_def tiempo_def voltaje_def)
qed

text \<open>
  C10, as the code has it. Whatever is raised during a fetch, the caller gets the pair
  \<open>(None, None)\<close>. That result differs from every pair of arrays, empty ones included, and
  it is the same for every kind of failure.
\<close>

theorem failure_is_None_None:
  assumes "fetch db t ch = Some (Inl e)"
  shows "get_waveform db t ch = Some None_None \<and> get_waveform db t ch \<noteq> Some (Arrays [] [])"
  using assms by (simp add: get_waveform_def)

theorem failure_is_None_None_witness:
  "fetch ucd (instrument []) 1 = Some (Inl TransportError)
   \<and> get_waveform ucd (instrument []) 1 = Some None_None
   \<and> get_waveform ucd (instrument []) 1 \<noteq> Some (Arrays [] [])"
  using failure_is_None_None [OF fetch_silent [of ucd 1]] by (simp add: fetch_silent)

text \<open>
  C10 as stated fails. A silent instrument (a transport failure) and a metadata region
  with an unreadable sampling rate (a metadata failure) give the caller the same result,
  so the kinds of failure cannot be told apart. And a request for channel 2 of an
  acquisition in which channel 1 alone is enabled is no failure at all: it returns two
  empty arrays.
\<close>

theorem failure_kinds_counterexample:
  "fetch ucd (instrument []) 1 = Some (Inl TransportError)
   \<and> fetch ucd (instrument [pkt_one meta_bad_sr]) 1 = Some (Inl ValueError)
   \<and> get_waveform ucd (instrument []) 1 = get_waveform ucd (instrument [pkt_one meta_bad_sr]) 1
   \<and> get_waveform ucd (instrument [pkt_ch1]) 2 = Some (Arrays [] [])"
  by (simp add: get_waveform_def fetch_silent fetch_bad_sr fetch_disabled_channel)

end
